(* ===== verification/Model_Prelude.thy ===== *)
theory Model_Prelude
  imports Main "HOL-Library.AList"
begin

text \<open>
  Shared vocabulary of the model of the notebook
  \<^verbatim>\<open>src/needs_updating/Collapsing Orthologous Nodes.ipynb\<close>.
  A BEL node of PyBEL 0.2 is a Python tuple; every node the notebook touches is a tuple
  of strings, modelled as a \<open>string list\<close>. A node's attribute dictionary is a partial
  map from attribute names to (string) values. Python exceptions raised by the notebook's
  statements are the constructors of \<open>py_error\<close>. The collection \<open>model_eval\<close>
  gathers the equations a closed witness needs to evaluate a run of the model.
\<close>

named_theorems model_eval "equations that evaluate the model on concrete inputs"

type_synonym node = "string list"
type_synonym attrs = "string \<rightharpoonup> string"

datatype py_error = ValueError | KeyError | IndexError | NameError | NetworkXUnfeasible
  | NetworkXError

text \<open>
  Tuple unpacking \<^verbatim>\<open>function, namespace, name = node\<close>: a tuple of any other
  length raises \<^verbatim>\<open>ValueError\<close>.
\<close>

fun unpack3 :: "node \<Rightarrow> py_error + (string \<times> string \<times> string)" where
  "unpack3 [f, ns, nm] = Inr (f, ns, nm)"
| "unpack3 _ = Inl ValueError"

text \<open>The reference-namespace test \<^verbatim>\<open>'MGI' == namespace\<close> of an unpacked node.\<close>

definition is_mgi :: "node \<Rightarrow> bool" where
  "is_mgi n \<longleftrightarrow> (case unpack3 n of Inr (_, ns, _) \<Rightarrow> ''MGI'' = ns | Inl _ \<Rightarrow> False)"

text \<open>A node all of whose unpackings succeed: a gene triple.\<close>

definition triple :: "node \<Rightarrow> bool" where
  "triple n \<longleftrightarrow> length n = 3"

declare is_mgi_def [model_eval] triple_def [model_eval]

subsection \<open>Unpacking\<close>

lemma unpack3_Inr_iff [simp]: "unpack3 n = Inr (f, ns, nm) \<longleftrightarrow> n = [f, ns, nm]"
  by (cases n rule: unpack3.cases) auto

lemma unpack3_Inl_iff [simp]: "unpack3 n = Inl e \<longleftrightarrow> e = ValueError \<and> \<not> triple n"
  by (cases n rule: unpack3.cases) (auto simp: triple_def)

lemma unpack3_triple: "triple n \<Longrightarrow> \<exists>f ns nm. unpack3 n = Inr (f, ns, nm) \<and> n = [f, ns, nm]"
  by (cases n rule: unpack3.cases) (auto simp: triple_def)

lemma unpack3_not_triple: "\<not> triple n \<Longrightarrow> unpack3 n = Inl ValueError"
  by (cases n rule: unpack3.cases) (auto simp: triple_def)

lemma triple_Cons3 [simp]: "triple [f, ns, nm]"
  by (simp add: triple_def)

lemma is_mgi_triple: "is_mgi n \<Longrightarrow> triple n"
  by (cases n rule: unpack3.cases) (auto simp: is_mgi_def triple_def)

lemma is_mgi_iff: "is_mgi n \<longleftrightarrow> (\<exists>f nm. n = [f, ''MGI'', nm])"
  by (cases n rule: unpack3.cases) (auto simp: is_mgi_def)

subsection \<open>Association lists\<close>

lemma map_of_Some_fst: "map_of xs k = Some v \<Longrightarrow> k \<in> fst ` set xs"
  by (force dest: map_of_SomeD)

subsection \<open>The last element of a list with a property\<close>

text \<open>
  A Python loop that overwrites one dictionary slot for each qualifying element leaves the
  last qualifying element there.
\<close>

definition last_such :: "('a \<Rightarrow> bool) \<Rightarrow> 'a list \<Rightarrow> 'a option" where
  "last_such P xs = (case filter P xs of [] \<Rightarrow> None | ys \<Rightarrow> Some (last ys))"

lemma last_such_Nil [simp]: "last_such P [] = None"
  by (simp add: last_such_def)

lemma last_such_Cons:
  "last_such P (x # xs) =
     (case last_such P xs of Some y \<Rightarrow> Some y | None \<Rightarrow> (if P x then Some x else None))"
  by (auto simp: last_such_def split: list.splits)

lemma last_such_None_iff: "last_such P xs = None \<longleftrightarrow> (\<forall>x \<in> set xs. \<not> P x)"
  by (cases "filter P xs") (simp_all add: last_such_def filter_empty_conv [symmetric])

lemma last_such_not_None: "x \<in> set xs \<Longrightarrow> P x \<Longrightarrow> last_such P xs \<noteq> None"
  by (auto simp: last_such_None_iff)

lemma last_such_Some: "last_such P xs = Some y \<Longrightarrow> y \<in> set xs \<and> P y"
proof -
  assume h: "last_such P xs = Some y"
  then obtain z zs where fz: "filter P xs = z # zs" and y: "y = last (z # zs)"
    by (auto simp: last_such_def split: list.splits)
  then have "y \<in> set (filter P xs)" by simp
  then show ?thesis by simp
qed

lemma last_such_map: "last_such P (map f xs) = map_option f (last_such (P \<circ> f) xs)"
  by (induction xs) (auto simp: last_such_Cons split: option.splits)

lemma last_such_unique:
  assumes "\<forall>y \<in> set xs. P y \<longrightarrow> y = x" and "x \<in> set xs" and "P x"
  shows "last_such P xs = Some x"
proof -
  from assms have "filter P xs \<noteq> []" by (auto simp: filter_empty_conv)
  then obtain z zs where fz: "filter P xs = z # zs" by (cases "filter P xs") auto
  then have "last (z # zs) \<in> set (filter P xs)" by simp
  with assms(1) have "last (z # zs) = x" by auto
  with fz show ?thesis by (simp add: last_such_def)
qed

lemma last_such_cong: "(\<And>y. y \<in> set xs \<Longrightarrow> P y = Q y) \<Longrightarrow> last_such P xs = last_such Q xs"
  by (simp add: last_such_def cong: filter_cong)

lemma last_such_upt_Suc:
  "last_such P [0..<Suc n] =
     (case last_such (\<lambda>j. P (Suc j)) [0..<n] of Some j \<Rightarrow> Some (Suc j)
      | None \<Rightarrow> (if P 0 then Some 0 else None))"
proof -
  have "[0..<Suc n] = 0 # map Suc [0..<n]"
    by (simp add: map_Suc_upt upt_conv_Cons)
  then show ?thesis
    by (simp add: last_such_Cons last_such_map comp_def split: option.splits)
qed

subsection \<open>Elements in order of first occurrence\<close>

text \<open>
  The keys of a Python dictionary (or the members of a set built from a list, as networkx
  builds its graphs) in insertion order: each element where it first occurs.
\<close>

fun first_occ :: "'a list \<Rightarrow> 'a list" where
  "first_occ [] = []"
| "first_occ (x # xs) = x # removeAll x (first_occ xs)"

lemma first_occ_set [simp]: "set (first_occ xs) = set xs"
  by (induction xs) auto

lemma first_occ_distinct: "distinct (first_occ xs)"
  by (induction xs) (auto simp: distinct_removeAll)

lemma removeAll_first_occ: "removeAll x (first_occ xs) = first_occ (removeAll x xs)"
  by (induction xs) (auto simp: removeAll_commute)

lemma first_occ_append:
  "first_occ (xs @ ys) = first_occ xs @ first_occ (filter (\<lambda>y. y \<notin> set xs) ys)"
proof (induction xs)
  case Nil
  then show ?case by simp
next
  case (Cons x xs)
  have "removeAll x (first_occ (filter (\<lambda>y. y \<notin> set xs) ys)) =
      first_occ (filter (\<lambda>y. y \<notin> set (x # xs)) ys)"
    by (simp only: removeAll_first_occ)
      (auto simp: removeAll_filter_not_eq filter_filter intro!: arg_cong [where f = first_occ] filter_cong)
  with Cons show ?case by simp
qed

lemma first_occ_id: "distinct xs \<Longrightarrow> first_occ xs = xs"
  by (induction xs) (auto simp: removeAll_id)

subsection \<open>Pairwise disjoint lists\<close>

definition disjoint_lists :: "'a list list \<Rightarrow> bool" where
  "disjoint_lists xss \<longleftrightarrow> sorted_wrt (\<lambda>a b. set a \<inter> set b = {}) xss"

lemma disjoint_lists_nth:
  assumes "disjoint_lists xss" and "i < length xss" and "j < length xss"
    and "x \<in> set (xss ! i)" and "x \<in> set (xss ! j)"
  shows "i = j"
proof (rule ccontr)
  assume "i \<noteq> j"
  then consider "i < j" | "j < i" by linarith
  then show False
  proof cases
    case 1
    with assms have "set (xss ! i) \<inter> set (xss ! j) = {}"
      by (auto simp: disjoint_lists_def dest: sorted_wrt_nth_less)
    with assms(4,5) show False by blast
  next
    case 2
    with assms have "set (xss ! j) \<inter> set (xss ! i) = {}"
      by (auto simp: disjoint_lists_def dest: sorted_wrt_nth_less)
    with assms(4,5) show False by blast
  qed
qed

lemma last_such_index_unique:
  assumes "disjoint_lists xss" and "j < length xss" and "x \<in> set (xss ! j)"
  shows "last_such (\<lambda>k. x \<in> set (xss ! k)) [0..<length xss] = Some j"
proof (rule last_such_unique)
  show "\<forall>k \<in> set [0..<length xss]. x \<in> set (xss ! k) \<longrightarrow> k = j"
    using assms disjoint_lists_nth [OF assms(1)] by auto
qed (use assms in auto)

end
