(* ===== verification/Graphs.thy ===== *)
theory Graphs
  imports Model_Prelude
begin

text \<open>
  The graphs the notebook manipulates. A PyBEL \<^verbatim>\<open>BELGraph\<close> is a networkx 1.x
  \<^verbatim>\<open>MultiDiGraph\<close>: a node dictionary \<^verbatim>\<open>G.node\<close> (node to attribute dictionary,
  iterated in insertion order) and keyed multi-edges \<^verbatim>\<open>G.succ[u][v][key] = data\<close>.
  Both are association lists here. \<^verbatim>\<open>orthology.to_undirected()\<close> (cell 10) builds a
  \<^verbatim>\<open>MultiGraph\<close> in which the slots \<open>(u, v, key)\<close> and \<open>(v, u, key)\<close> are one
  and the same; \<open>ulinked\<close> is its adjacency, \<open>uneighbors\<close> the executable
  \<^verbatim>\<open>G.adj[v]\<close>, and \<open>connected\<close> the reflexive transitive closure of the adjacency,
  the abstract notion of a connected component.
\<close>

type_synonym edge_key = "node \<times> node \<times> nat"
type_synonym edge = "edge_key \<times> attrs"

record bel_graph =
  g_node :: "(node \<times> attrs) list"
  g_edges :: "edge list"

record ugraph =
  u_node :: "(node \<times> attrs) list"
  u_edges :: "edge list"

definition nodes :: "bel_graph \<Rightarrow> node list" where
  "nodes g = map fst (g_node g)"

definition unodes :: "ugraph \<Rightarrow> node list" where
  "unodes H = map fst (u_node H)"

text \<open>
  What networkx maintains for every graph: the node dictionary has each key once, each
  edge slot is stored once, and an edge joins two nodes of the graph.
\<close>

definition wf_graph :: "bel_graph \<Rightarrow> bool" where
  "wf_graph g \<longleftrightarrow> distinct (nodes g) \<and> distinct (map fst (g_edges g)) \<and>
     (\<forall>e \<in> set (g_edges g). fst (fst e) \<in> set (nodes g) \<and> fst (snd (fst e)) \<in> set (nodes g))"

subsection \<open>The undirected projection (cell 10)\<close>

text \<open>
  \<^verbatim>\<open>MultiGraph.add_edge(u, v, key, **data)\<close>: the key dictionary of \<open>{u, v}\<close> is
  shared by both orientations, so an edge whose reverse slot exists merges its data into
  that slot (\<^verbatim>\<open>datadict.update(data)\<close>); otherwise the slot \<open>(u, v, key)\<close> is
  created or updated.
\<close>

definition add_uedge :: "edge list \<Rightarrow> edge \<Rightarrow> edge list" where
  "add_uedge es e = (case e of ((u, v, k), d) \<Rightarrow>
     (case map_of es (v, u, k) of
        Some d0 \<Rightarrow> AList.update (v, u, k) (d0 ++ d) es
      | None \<Rightarrow> AList.update (u, v, k)
          ((case map_of es (u, v, k) of None \<Rightarrow> Map.empty | Some d0 \<Rightarrow> d0) ++ d) es))"

text \<open>
  \<^verbatim>\<open>MultiDiGraph.to_undirected()\<close>: the nodes with (copies of) their data, then every
  directed edge added to the undirected multigraph.
\<close>

definition to_undirected :: "bel_graph \<Rightarrow> ugraph" where
  "to_undirected g = \<lparr>u_node = g_node g, u_edges = fold (\<lambda>e es. add_uedge es e) (g_edges g) []\<rparr>"

definition ulinked :: "ugraph \<Rightarrow> node \<Rightarrow> node \<Rightarrow> bool" where
  "ulinked H x y \<longleftrightarrow>
     (\<exists>k. (x, y, k) \<in> fst ` set (u_edges H) \<or> (y, x, k) \<in> fst ` set (u_edges H))"

definition glinked :: "bel_graph \<Rightarrow> node \<Rightarrow> node \<Rightarrow> bool" where
  "glinked g x y \<longleftrightarrow> (\<exists>k. (x, y, k) \<in> fst ` set (g_edges g))"

text \<open>\<^verbatim>\<open>G.adj[x]\<close> of a \<^verbatim>\<open>MultiGraph\<close>: the other end of every edge at \<open>x\<close>.\<close>

definition uneighbors :: "ugraph \<Rightarrow> node \<Rightarrow> node list" where
  "uneighbors H x =
     map (\<lambda>((a, b, k), d). if a = x then b else a)
       (filter (\<lambda>((a, b, k), d). a = x \<or> b = x) (u_edges H))"

definition connected :: "ugraph \<Rightarrow> node \<Rightarrow> node \<Rightarrow> bool" where
  "connected H = (ulinked H)\<^sup>*\<^sup>*"

text \<open>The end points of the edges: a finite set that holds every neighbour.\<close>

definition uverts :: "ugraph \<Rightarrow> node set" where
  "uverts H = fst ` fst ` set (u_edges H) \<union> fst ` snd ` fst ` set (u_edges H)"

declare nodes_def [model_eval] unodes_def [model_eval] add_uedge_def [model_eval]
  to_undirected_def [model_eval] uneighbors_def [model_eval]

subsection \<open>Adjacency\<close>

lemma ulinked_sym: "ulinked H x y \<longleftrightarrow> ulinked H y x"
  by (auto simp: ulinked_def)

lemma set_uneighbors: "set (uneighbors H x) = {y. ulinked H x y}"
proof (intro set_eqI iffI)
  fix y
  assume "y \<in> set (uneighbors H x)"
  then obtain a b k d where mem: "((a, b, k), d) \<in> set (u_edges H)"
    and ends: "a = x \<or> b = x" and y: "y = (if a = x then b else a)"
    by (auto simp: uneighbors_def)
  have "(a, b, k) \<in> fst ` set (u_edges H)" using mem by force
  with ends y show "y \<in> {y. ulinked H x y}" by (auto simp: ulinked_def)
next
  fix y
  assume "y \<in> {y. ulinked H x y}"
  then obtain k d where "((x, y, k), d) \<in> set (u_edges H) \<or> ((y, x, k), d) \<in> set (u_edges H)"
    unfolding ulinked_def by force
  then consider "((x, y, k), d) \<in> set (u_edges H)" | "((y, x, k), d) \<in> set (u_edges H)"
    by blast
  then show "y \<in> set (uneighbors H x)"
  proof cases
    case 1
    then have "((x, y, k), d) \<in> set (filter (\<lambda>((a, b, k), d). a = x \<or> b = x) (u_edges H))"
      by simp
    then show ?thesis unfolding uneighbors_def set_map
      by (rule rev_image_eqI) simp
  next
    case 2
    then have "((y, x, k), d) \<in> set (filter (\<lambda>((a, b, k), d). a = x \<or> b = x) (u_edges H))"
      by simp
    then show ?thesis unfolding uneighbors_def set_map
      by (rule rev_image_eqI) simp
  qed
qed

lemma finite_uverts: "finite (uverts H)"
  by (simp add: uverts_def)

lemma uverts_iff: "x \<in> uverts H \<longleftrightarrow> (\<exists>y. ulinked H x y)"
  unfolding uverts_def ulinked_def by force

lemma uneighbors_uverts: "set (uneighbors H x) \<subseteq> uverts H"
  by (auto simp: set_uneighbors uverts_iff ulinked_sym)

lemma connected_sym: "connected H x y \<Longrightarrow> connected H y x"
  unfolding connected_def
proof (induction rule: rtranclp_induct)
  case base
  then show ?case by simp
next
  case (step y z)
  then have "ulinked H z y" by (simp add: ulinked_sym)
  with step.IH show ?case by (meson converse_rtranclp_into_rtranclp)
qed

lemma connected_trans: "connected H x y \<Longrightarrow> connected H y z \<Longrightarrow> connected H x z"
  unfolding connected_def by (rule rtranclp_trans)

lemma connected_refl [simp]: "connected H x x"
  by (simp add: connected_def)

text \<open>A set that holds \<open>x\<close> and every neighbour of its members holds \<open>x\<close>'s class.\<close>

lemma connected_closed:
  assumes "connected H x y" and "x \<in> S" and "\<forall>u \<in> S. set (uneighbors H u) \<subseteq> S"
  shows "y \<in> S"
  using assms(1,2) unfolding connected_def
proof (induction rule: rtranclp_induct)
  case base
  then show ?case .
next
  case (step y z)
  then have "y \<in> S" by simp
  with assms(3) step.hyps(2) show ?case by (auto simp: set_uneighbors)
qed

subsection \<open>The projection keeps exactly the adjacency, in both directions\<close>

text \<open>The unordered end-point pairs of an edge list.\<close>

definition sym_keys :: "edge list \<Rightarrow> (node \<times> node) set" where
  "sym_keys es = {(a, b). \<exists>k. (a, b, k) \<in> fst ` set es \<or> (b, a, k) \<in> fst ` set es}"

lemma sym_keys_Nil [simp]: "sym_keys [] = {}"
  by (simp add: sym_keys_def)

lemma sym_keys_Cons [simp]: "sym_keys (((u, v, k), d) # es) = {(u, v), (v, u)} \<union> sym_keys es"
  by (auto simp: sym_keys_def)

lemma sym_keys_update:
  "sym_keys (AList.update (u, v, k) d es) = {(u, v), (v, u)} \<union> sym_keys es"
  unfolding sym_keys_def dom_update by blast

lemma add_uedge_keys:
  "sym_keys (add_uedge es ((u, v, k0), d)) = sym_keys es \<union> {(u, v), (v, u)}"
proof (cases "map_of es (v, u, k0)")
  case None
  then show ?thesis by (auto simp: add_uedge_def sym_keys_update)
next
  case (Some d0)
  then have "(v, u, k0) \<in> fst ` set es"
    by (metis map_of_SomeD fst_conv image_eqI)
  then have "{(u, v), (v, u)} \<subseteq> sym_keys es"
    by (auto simp: sym_keys_def)
  with Some show ?thesis by (auto simp: add_uedge_def sym_keys_update)
qed

lemma sym_keys_fold_add_uedge:
  "sym_keys (fold (\<lambda>e es. add_uedge es e) gs es) = sym_keys es \<union> sym_keys gs"
proof (induction gs arbitrary: es)
  case Nil
  then show ?case by simp
next
  case (Cons e gs)
  obtain u v k0 d where e: "e = ((u, v, k0), d)" by (cases e) auto
  from Cons.IH [of "add_uedge es e"] show ?case
    by (simp add: e add_uedge_keys Un_ac)
qed

lemma ulinked_sym_keys: "ulinked H x y \<longleftrightarrow> (x, y) \<in> sym_keys (u_edges H)"
  by (simp add: ulinked_def sym_keys_def)

lemma sym_keys_to_undirected: "sym_keys (u_edges (to_undirected g)) = sym_keys (g_edges g)"
  by (simp add: to_undirected_def sym_keys_fold_add_uedge)

text \<open>
  C14. The undirected projection links two nodes exactly when the orthology graph has an edge
  between them in either direction: \<^verbatim>\<open>to_undirected\<close> neither loses nor invents an
  orthology statement.
\<close>

theorem ulinked_to_undirected:
  "ulinked (to_undirected g) x y \<longleftrightarrow> glinked g x y \<or> glinked g y x"
  by (simp add: ulinked_sym_keys sym_keys_to_undirected) (auto simp: sym_keys_def glinked_def)

lemma unodes_to_undirected [simp]: "unodes (to_undirected g) = nodes g"
  by (simp add: unodes_def nodes_def to_undirected_def)

lemma uverts_to_undirected:
  assumes "wf_graph g"
  shows "uverts (to_undirected g) \<subseteq> set (nodes g)"
proof
  fix x
  assume "x \<in> uverts (to_undirected g)"
  then obtain y where "ulinked (to_undirected g) x y"
    by (auto simp: uverts_iff)
  then have "(x, y) \<in> sym_keys (g_edges g)"
    by (simp add: ulinked_sym_keys sym_keys_to_undirected)
  with assms show "x \<in> set (nodes g)"
    by (fastforce simp: wf_graph_def sym_keys_def)
qed

end
