(* ===== verification/Components.thy ===== *)
theory Components
  imports Graphs
begin

text \<open>
  \<^verbatim>\<open>nx.connected_components(orthology_undirected)\<close> (cell 11), as networkx 1.x
  implements it:
  \<^verbatim>\<open>
  def _plain_bfs(G, source):
      seen = set(); nextlevel = {source}
      while nextlevel:
          thislevel = nextlevel; nextlevel = set()
          for v in thislevel:
              if v not in seen:
                  yield v; seen.add(v); nextlevel.update(G.adj[v])

  def connected_components(G):
      seen = set()
      for v in G:
          if v not in seen:
              c = set(_plain_bfs(G, v)); yield c; seen.update(c)
  \<close>
  \<open>bfs_level\<close> is the inner \<^verbatim>\<open>for\<close> loop, \<open>plain_bfs\<close> the \<^verbatim>\<open>while\<close> loop (its
  \<open>seen\<close> list is the sequence of yielded nodes), \<open>cc_loop\<close> the generator over the
  nodes. A Python set is iterated in an order the language leaves open; the model iterates
  a component in the order the breadth-first search yields it. Termination of the
  \<^verbatim>\<open>while\<close> loop is proved with a lexicographic measure: the unseen nodes among the
  edge end points and the current level, then the length of the level.
\<close>

fun bfs_level :: "ugraph \<Rightarrow> node list \<Rightarrow> node list \<times> node list \<Rightarrow> node list \<times> node list" where
  "bfs_level H [] sn = sn"
| "bfs_level H (v # vs) (seen, nxt) =
     (if v \<in> set seen then bfs_level H vs (seen, nxt)
      else bfs_level H vs (seen @ [v], nxt @ uneighbors H v))"

lemma bfs_level_sets:
  "bfs_level H this (seen, nxt) = (seen', nxt') \<Longrightarrow>
     set seen' = set seen \<union> set this \<and>
     set nxt' = set nxt \<union> (\<Union>v \<in> set this - set seen. set (uneighbors H v))"
proof (induction this arbitrary: seen nxt)
  case Nil
  then show ?case by simp
next
  case (Cons v vs)
  show ?case
  proof (cases "v \<in> set seen")
    case True
    with Cons.prems have "bfs_level H vs (seen, nxt) = (seen', nxt')" by simp
    from Cons.IH [OF this] True show ?thesis by auto
  next
    case False
    with Cons.prems have "bfs_level H vs (seen @ [v], nxt @ uneighbors H v) = (seen', nxt')"
      by simp
    from Cons.IH [OF this] False show ?thesis by auto
  qed
qed

lemma bfs_level_progress:
  assumes lvl: "bfs_level H this (seen, []) = (seen', nxt')"
  shows "card ((uverts H \<union> set nxt') - set seen') < card ((uverts H \<union> set this) - set seen) \<or>
    card ((uverts H \<union> set nxt') - set seen') = card ((uverts H \<union> set this) - set seen) \<and>
    nxt' = []"
proof -
  from bfs_level_sets [OF lvl] have s: "set seen' = set seen \<union> set this"
    and n: "set nxt' = (\<Union>v \<in> set this - set seen. set (uneighbors H v))" by auto
  have nU: "set nxt' \<subseteq> uverts H" using n uneighbors_uverts by blast
  then have eq: "(uverts H \<union> set nxt') - set seen' = uverts H - (set seen \<union> set this)"
    using s by blast
  show ?thesis
  proof (cases "set this \<subseteq> set seen")
    case True
    then have "set nxt' = {}" using n by auto
    then have "nxt' = []" by simp
    moreover have "(uverts H \<union> set nxt') - set seen' = (uverts H \<union> set this) - set seen"
      using eq True by blast
    ultimately show ?thesis by simp
  next
    case False
    then obtain t where t: "t \<in> set this" "t \<notin> set seen" by blast
    have fin: "finite ((uverts H \<union> set this) - set seen)"
      by (simp add: finite_uverts)
    have "uverts H - (set seen \<union> set this) \<subset> (uverts H \<union> set this) - set seen"
      using t by blast
    with fin have "card (uverts H - (set seen \<union> set this)) < card ((uverts H \<union> set this) - set seen)"
      by (rule psubset_card_mono)
    with eq show ?thesis by simp
  qed
qed

function plain_bfs :: "ugraph \<Rightarrow> node list \<Rightarrow> node list \<Rightarrow> node list" where
  "plain_bfs H seen [] = seen"
| "plain_bfs H seen (v # vs) =
     (case bfs_level H (v # vs) (seen, []) of (seen', nxt) \<Rightarrow> plain_bfs H seen' nxt)"
  by pat_completeness auto
termination
proof (relation "measures [\<lambda>(H, seen, nxt). card ((uverts H \<union> set nxt) - set seen),
                          \<lambda>(H, seen, nxt). length nxt]")
  show "wf (measures [\<lambda>(H, seen, nxt). card ((uverts H \<union> set nxt) - set seen),
                      \<lambda>(H, seen, nxt). length nxt])" by simp
next
  fix H seen v vs seen' nxt
  assume "(seen', nxt) = bfs_level H (v # vs) (seen, [])"
  then have "bfs_level H (v # vs) (seen, []) = (seen', nxt)" by simp
  from bfs_level_progress [OF this] show "((H, seen', nxt), H, seen, v # vs)
      \<in> measures [\<lambda>(H, seen, nxt). card ((uverts H \<union> set nxt) - set seen),
                  \<lambda>(H, seen, nxt). length nxt]" by auto
qed

text \<open>
  The same \<^verbatim>\<open>while nextlevel\<close> loop with a bound on its rounds: \<open>None\<close> when the
  bound is used up while a level is still to be processed.
\<close>

fun bfs_rounds :: "nat \<Rightarrow> ugraph \<Rightarrow> node list \<Rightarrow> node list \<Rightarrow> node list option" where
  "bfs_rounds k H seen [] = Some seen"
| "bfs_rounds 0 H seen (v # vs) = None"
| "bfs_rounds (Suc k) H seen (v # vs) =
     (case bfs_level H (v # vs) (seen, []) of (seen', nxt) \<Rightarrow> bfs_rounds k H seen' nxt)"

fun cc_loop :: "ugraph \<Rightarrow> node list \<Rightarrow> node list \<Rightarrow> node list list" where
  "cc_loop H seen [] = []"
| "cc_loop H seen (v # vs) =
     (if v \<in> set seen then cc_loop H seen vs
      else (let c = plain_bfs H [] [v] in c # cc_loop H (seen @ c) vs))"

definition connected_components :: "ugraph \<Rightarrow> node list list" where
  "connected_components H = cc_loop H [] (unodes H)"

declare plain_bfs.simps [model_eval] connected_components_def [model_eval]

declare plain_bfs.simps [simp del]

subsection \<open>The breadth-first search yields exactly the connected class\<close>

definition cls :: "ugraph \<Rightarrow> node \<Rightarrow> node set" where
  "cls H v = {w. connected H v w}"

lemma plain_bfs_sound:
  "set seen \<union> set nxt \<subseteq> S \<Longrightarrow> \<forall>u \<in> S. set (uneighbors H u) \<subseteq> S \<Longrightarrow>
     set (plain_bfs H seen nxt) \<subseteq> S"
proof (induction H seen nxt rule: plain_bfs.induct)
  case (1 H seen)
  then show ?case by (simp add: plain_bfs.simps)
next
  case (2 H seen v vs)
  obtain seen' nxt' where lvl: "bfs_level H (v # vs) (seen, []) = (seen', nxt')"
    using prod.exhaust by metis
  have eq: "plain_bfs H seen (v # vs) = plain_bfs H seen' nxt'"
    by (simp only: plain_bfs.simps lvl prod.case)
  from bfs_level_sets [OF lvl] have s: "set seen' = set seen \<union> set (v # vs)"
    and n: "set nxt' = (\<Union>u \<in> set (v # vs) - set seen. set (uneighbors H u))" by auto
  have "set (v # vs) \<subseteq> S" using "2.prems"(1) by simp
  with "2.prems"(2) have "set nxt' \<subseteq> S" unfolding n by blast
  with s "2.prems"(1) have "set seen' \<union> set nxt' \<subseteq> S" by auto
  from "2.IH" [OF lvl [symmetric] this "2.prems"(2)] show ?case by (simp only: eq)
qed

lemma plain_bfs_closed:
  "\<forall>u \<in> set seen. set (uneighbors H u) \<subseteq> set seen \<union> set nxt \<Longrightarrow>
     set seen \<union> set nxt \<subseteq> set (plain_bfs H seen nxt) \<and>
     (\<forall>u \<in> set (plain_bfs H seen nxt). set (uneighbors H u) \<subseteq> set (plain_bfs H seen nxt))"
proof (induction H seen nxt rule: plain_bfs.induct)
  case (1 H seen)
  then show ?case by (simp add: plain_bfs.simps)
next
  case (2 H seen v vs)
  obtain seen' nxt' where lvl: "bfs_level H (v # vs) (seen, []) = (seen', nxt')"
    using prod.exhaust by metis
  have eq: "plain_bfs H seen (v # vs) = plain_bfs H seen' nxt'"
    by (simp only: plain_bfs.simps lvl prod.case)
  from bfs_level_sets [OF lvl] have s: "set seen' = set seen \<union> set (v # vs)"
    and n: "set nxt' = (\<Union>u \<in> set (v # vs) - set seen. set (uneighbors H u))" by auto
  have "\<forall>u \<in> set seen'. set (uneighbors H u) \<subseteq> set seen' \<union> set nxt'"
    using "2.prems" s n by auto
  from "2.IH" [OF lvl [symmetric] this] s show ?case by (simp only: eq) auto
qed

theorem plain_bfs_cls: "set (plain_bfs H [] [v]) = cls H v"
proof
  have closed: "\<forall>u \<in> cls H v. set (uneighbors H u) \<subseteq> cls H v"
  proof
    fix u
    assume "u \<in> cls H v"
    then show "set (uneighbors H u) \<subseteq> cls H v"
      by (auto simp: cls_def set_uneighbors connected_def intro: rtranclp.rtrancl_into_rtrancl)
  qed
  have "set [] \<union> set [v] \<subseteq> cls H v" by (simp add: cls_def)
  from this closed show "set (plain_bfs H [] [v]) \<subseteq> cls H v" by (rule plain_bfs_sound)
next
  from plain_bfs_closed [of "[]" H "[v]"]
  have v: "v \<in> set (plain_bfs H [] [v])"
    and cl: "\<forall>u \<in> set (plain_bfs H [] [v]). set (uneighbors H u) \<subseteq> set (plain_bfs H [] [v])"
    by auto
  show "cls H v \<subseteq> set (plain_bfs H [] [v])"
  proof
    fix w
    assume "w \<in> cls H v"
    then have "connected H v w" by (simp add: cls_def)
    from this v cl show "w \<in> set (plain_bfs H [] [v])" by (rule connected_closed)
  qed
qed

subsection \<open>The search ends within a bounded number of rounds\<close>

text \<open>
  C26. Termination of \<^verbatim>\<open>_plain_bfs\<close> with a bound: the \<^verbatim>\<open>while nextlevel\<close> loop
  ends within one round more than the number of edge end points and current-level nodes
  not yet seen, with the result of the search.
\<close>

theorem bfs_rounds_enough:
  "card ((uverts H \<union> set nxt) - set seen) < k \<Longrightarrow> bfs_rounds k H seen nxt = Some (plain_bfs H seen nxt)"
proof (induction H seen nxt arbitrary: k rule: plain_bfs.induct)
  case (1 H seen)
  then show ?case by (simp add: plain_bfs.simps)
next
  case (2 H seen v vs)
  obtain seen' nxt' where lvl: "bfs_level H (v # vs) (seen, []) = (seen', nxt')"
    using prod.exhaust by metis
  from "2.prems" obtain k' where k: "k = Suc k'" by (cases k) auto
  have eq: "plain_bfs H seen (v # vs) = plain_bfs H seen' nxt'"
    by (simp only: plain_bfs.simps lvl prod.case)
  have r: "bfs_rounds k H seen (v # vs) = bfs_rounds k' H seen' nxt'"
    by (simp only: k bfs_rounds.simps lvl prod.case)
  from bfs_level_progress [OF lvl] show ?case
  proof
    assume "card ((uverts H \<union> set nxt') - set seen') < card ((uverts H \<union> set (v # vs)) - set seen)"
    with "2.prems" k have "card ((uverts H \<union> set nxt') - set seen') < k'" by simp
    from "2.IH" [OF lvl [symmetric] this] show ?thesis by (simp only: r eq)
  next
    assume "card ((uverts H \<union> set nxt') - set seen') = card ((uverts H \<union> set (v # vs)) - set seen) \<and>
      nxt' = []"
    then have "plain_bfs H seen' nxt' = seen'" "bfs_rounds k' H seen' nxt' = Some seen'"
      by (simp_all add: plain_bfs.simps)
    then show ?thesis by (simp only: r eq)
  qed
qed

lemma connected_iff_bfs: "connected H v w \<longleftrightarrow> w \<in> set (plain_bfs H [] [v])"
  by (simp add: plain_bfs_cls cls_def)

lemma cls_self: "v \<in> cls H v"
  by (simp add: cls_def)

lemma cls_eq: "w \<in> cls H v \<Longrightarrow> cls H w = cls H v"
  by (auto simp: cls_def intro: connected_trans connected_sym)

subsection \<open>The generator yields a partition into classes\<close>

definition closed_union :: "ugraph \<Rightarrow> node set \<Rightarrow> bool" where
  "closed_union H S \<longleftrightarrow> (\<forall>u \<in> S. cls H u \<subseteq> S)"

lemma cls_disjoint:
  assumes "closed_union H S" and "v \<notin> S"
  shows "cls H v \<inter> S = {}"
proof (rule ccontr)
  assume "cls H v \<inter> S \<noteq> {}"
  then obtain w where w: "w \<in> cls H v" "w \<in> S" by blast
  with assms(1) have "cls H w \<subseteq> S" by (simp add: closed_union_def)
  moreover from w(1) have "cls H w = cls H v" by (rule cls_eq)
  ultimately have "v \<in> S" using cls_self [of v H] by blast
  with assms(2) show False by simp
qed

lemma closed_union_add: "closed_union H S \<Longrightarrow> closed_union H (S \<union> cls H v)"
  by (auto simp: closed_union_def dest: cls_eq)

lemma closed_union_empty [simp]: "closed_union H {}"
  by (simp add: closed_union_def)

lemma cc_loop_cls:
  "c \<in> set (cc_loop H seen vs) \<Longrightarrow> \<exists>v \<in> set vs. v \<notin> set seen \<and> set c = cls H v"
proof (induction vs arbitrary: seen)
  case Nil
  then show ?case by simp
next
  case (Cons w ws)
  show ?case
  proof (cases "w \<in> set seen")
    case True
    with Cons show ?thesis by auto
  next
    case False
    with Cons.prems have "c = plain_bfs H [] [w] \<or> c \<in> set (cc_loop H (seen @ plain_bfs H [] [w]) ws)"
      by (simp add: Let_def)
    then show ?thesis
    proof
      assume "c = plain_bfs H [] [w]"
      with False show ?thesis by (auto simp: plain_bfs_cls)
    next
      assume "c \<in> set (cc_loop H (seen @ plain_bfs H [] [w]) ws)"
      from Cons.IH [OF this] show ?thesis by auto
    qed
  qed
qed

lemma cc_loop_covers:
  "closed_union H (set seen) \<Longrightarrow> v \<in> set vs \<Longrightarrow>
     v \<in> set seen \<or> (\<exists>c \<in> set (cc_loop H seen vs). v \<in> set c)"
proof (induction vs arbitrary: seen)
  case Nil
  then show ?case by simp
next
  case (Cons w ws)
  show ?case
  proof (cases "w \<in> set seen")
    case True
    with Cons show ?thesis by auto
  next
    case False
    let ?c = "plain_bfs H [] [w]"
    have cl: "closed_union H (set (seen @ ?c))"
      using closed_union_add [OF Cons.prems(1)] by (simp add: plain_bfs_cls)
    have res: "cc_loop H seen (w # ws) = ?c # cc_loop H (seen @ ?c) ws"
      using False by (simp add: Let_def)
    show ?thesis
    proof (cases "v = w")
      case True
      then have "v \<in> set ?c" by (simp add: plain_bfs_cls cls_self)
      with res show ?thesis by auto
    next
      case False
      with Cons.prems(2) have "v \<in> set ws" by simp
      from Cons.IH [OF cl this] res show ?thesis by auto
    qed
  qed
qed

lemma cc_loop_disjoint:
  "closed_union H (set seen) \<Longrightarrow>
     disjoint_lists (cc_loop H seen vs) \<and> (\<forall>c \<in> set (cc_loop H seen vs). set c \<inter> set seen = {})"
proof (induction vs arbitrary: seen)
  case Nil
  then show ?case by (simp add: disjoint_lists_def)
next
  case (Cons w ws)
  show ?case
  proof (cases "w \<in> set seen")
    case True
    with Cons show ?thesis by auto
  next
    case False
    let ?c = "plain_bfs H [] [w]"
    have cl: "closed_union H (set (seen @ ?c))"
      using closed_union_add [OF Cons.prems(1)] by (simp add: plain_bfs_cls)
    have c: "set ?c \<inter> set seen = {}"
      using cls_disjoint [OF Cons.prems(1) False] by (simp add: plain_bfs_cls)
    have res: "cc_loop H seen (w # ws) = ?c # cc_loop H (seen @ ?c) ws"
      using False by (simp add: Let_def)
    from Cons.IH [OF cl] c res show ?thesis
      by (auto simp: disjoint_lists_def)
  qed
qed

theorem connected_components_partition:
  "(\<forall>c \<in> set (connected_components H). \<exists>v \<in> set (unodes H). set c = cls H v) \<and>
   (\<forall>v \<in> set (unodes H). \<exists>c \<in> set (connected_components H). v \<in> set c) \<and>
   disjoint_lists (connected_components H)"
  using cc_loop_cls [of _ H "[]" "unodes H"] cc_loop_covers [of H "[]" _ "unodes H"]
    cc_loop_disjoint [of H "[]" "unodes H"]
  by (auto simp: connected_components_def)

subsection \<open>Components of a well-formed graph\<close>

lemma cls_subset: "cls H v \<subseteq> insert v (uverts H)"
proof
  fix w
  assume "w \<in> cls H v"
  then have "(ulinked H)\<^sup>*\<^sup>* v w" by (simp add: cls_def connected_def)
  then show "w \<in> insert v (uverts H)"
  proof (cases rule: rtranclp.cases)
    case rtrancl_refl
    then show ?thesis by simp
  next
    case (rtrancl_into_rtrancl u)
    then have "ulinked H w u" by (simp add: ulinked_sym)
    then show ?thesis by (auto simp: uverts_iff)
  qed
qed

lemma components_unique:
  assumes "disjoint_lists cs" and "c \<in> set cs" and "c' \<in> set cs" and "n \<in> set c" and "n \<in> set c'"
  shows "c = c'"
proof -
  from assms(2) obtain i where i: "i < length cs" "cs ! i = c" by (auto simp: in_set_conv_nth)
  from assms(3) obtain j where j: "j < length cs" "cs ! j = c'" by (auto simp: in_set_conv_nth)
  from disjoint_lists_nth [OF assms(1) i(1) j(1)] i j assms(4,5) have "i = j" by simp
  with i j show ?thesis by simp
qed

lemma components_wf:
  assumes "wf_graph g" and "c \<in> set (connected_components (to_undirected g))"
  shows "set c \<subseteq> set (nodes g)"
proof -
  from assms(2) connected_components_partition obtain v where
    v: "v \<in> set (nodes g)" and c: "set c = cls (to_undirected g) v" by fastforce
  from cls_subset uverts_to_undirected [OF assms(1)] v show ?thesis
    unfolding c by blast
qed

text \<open>
  C12. Every node of the undirected graph lies in exactly one of the components that
  \<^verbatim>\<open>nx.connected_components\<close> yields.
\<close>

theorem component_exactly_one:
  assumes "v \<in> set (unodes H)"
  shows "\<exists>!c. c \<in> set (connected_components H) \<and> v \<in> set c"
proof -
  from connected_components_partition [of H] assms
  obtain c where "c \<in> set (connected_components H)" "v \<in> set c" by blast
  moreover have "c' = c" if "c' \<in> set (connected_components H)" "v \<in> set c'" for c'
    using components_unique [of "connected_components H"] connected_components_partition [of H]
      that calculation by blast
  ultimately show ?thesis by blast
qed

text \<open>
  C13. The components are the connectivity classes: a node shares a component with
  exactly the nodes it is connected to.
\<close>

theorem same_component_iff:
  assumes "c \<in> set (connected_components H)" and "x \<in> set c"
  shows "y \<in> set c \<longleftrightarrow> connected H x y"
proof -
  from connected_components_partition [of H] assms(1)
  obtain v where "set c = cls H v" by blast
  with assms(2) have "set c = cls H x" by (simp add: cls_eq)
  then show ?thesis by (simp add: cls_def)
qed

definition path3 :: ugraph where
  "path3 = \<lparr>u_node = [([''a''], Map.empty), ([''b''], Map.empty), ([''c''], Map.empty)],
             u_edges = [(([''b''], [''a''], 0), Map.empty)]\<rparr>"

lemma path3_components: "connected_components path3 = [[[''a''], [''b'']], [[''c'']]]"
  by (simp add: path3_def model_eval)

theorem component_exactly_one_witness:
  "[''b''] \<in> set (unodes path3) \<and>
   {c \<in> set (connected_components path3). [''b''] \<in> set c} = {[[''a''], [''b'']]}"
proof -
  have b: "[''b''] \<in> set (unodes path3)" by (simp add: path3_def unodes_def)
  have c: "[[''a''], [''b'']] \<in> set (connected_components path3)" by (simp add: path3_components)
  from component_exactly_one [OF b] c b show ?thesis by auto
qed

theorem same_component_iff_witness:
  "[[''a''], [''b'']] \<in> set (connected_components path3) \<and> [''a''] \<in> set [[''a''], [''b'']] \<and>
   connected path3 [''a''] [''b''] \<and> \<not> connected path3 [''a''] [''c'']"
proof -
  have c: "[[''a''], [''b'']] \<in> set (connected_components path3)" by (simp add: path3_components)
  have x: "[''a''] \<in> set [[''a''], [''b'']]" by simp
  from same_component_iff [OF c x, of "[''b'']"] same_component_iff [OF c x, of "[''c'']"] c x
  show ?thesis by simp
qed

theorem bfs_rounds_enough_witness:
  "card ((uverts path3 \<union> set [[''a'']]) - set []) < 3 \<and>
   bfs_rounds 3 path3 [] [[''a'']] = Some [[''a''], [''b'']]"
proof -
  have c: "card ((uverts path3 \<union> set [[''a'']]) - set []) < 3"
    by (simp add: path3_def uverts_def)
  have "plain_bfs path3 [] [[''a'']] = [[''a''], [''b'']]"
    by (simp add: path3_def model_eval)
  with bfs_rounds_enough [OF c] c show ?thesis by simp
qed

end
