(* ===== verification/Classes.thy ===== *)
theory Classes
  imports Components
begin

text \<open>
  Cell 11 of the notebook, the construction of the equivalence classes:
  \<^verbatim>\<open>
  index2component = {}; member2index = {}; index2mgi = {}
  for i, component in enumerate(nx.connected_components(orthology_undirected)):
      index2component[i] = component
      for function, namespace, name in component:
          member2index[function, namespace, name] = i
          if 'MGI' == namespace:
              index2mgi[i] = function, namespace, name
  \<close>
  The three dictionaries are the fields of the record \<open>classes\<close>; the inner loop is
  \<open>scan_members\<close>, the outer one \<open>scan_components\<close> (its first argument is the
  counter of \<^verbatim>\<open>enumerate\<close>), and a member that is not a triple stops the cell
  with \<^verbatim>\<open>ValueError\<close>. \<open>members_done\<close> and \<open>components_done\<close> are the
  closed forms of the two loops: every member of component \<open>i\<close> is mapped to \<open>i\<close>
  (the last component holding it wins), and \<open>index2mgi[i]\<close> holds the last MGI member in
  iteration order, which is the tie-break the loop implements.
\<close>

record classes =
  index2component :: "nat \<rightharpoonup> node list"
  member2index :: "node \<rightharpoonup> nat"
  index2mgi :: "nat \<rightharpoonup> node"

definition empty_classes :: classes where
  "empty_classes = \<lparr>index2component = Map.empty, member2index = Map.empty, index2mgi = Map.empty\<rparr>"

fun scan_members :: "nat \<Rightarrow> classes \<Rightarrow> node list \<Rightarrow> py_error + classes" where
  "scan_members i st [] = Inr st"
| "scan_members i st (m # ms) =
     (case unpack3 m of
        Inl e \<Rightarrow> Inl e
      | Inr (function, namespace, name) \<Rightarrow>
          (let st1 = st\<lparr>member2index := (member2index st)([function, namespace, name] \<mapsto> i)\<rparr>;
               st2 = (if ''MGI'' = namespace
                      then st1\<lparr>index2mgi := (index2mgi st1)(i \<mapsto> [function, namespace, name])\<rparr>
                      else st1)
           in scan_members i st2 ms))"

fun scan_components :: "nat \<Rightarrow> classes \<Rightarrow> node list list \<Rightarrow> py_error + classes" where
  "scan_components i st [] = Inr st"
| "scan_components i st (c # cs) =
     (case scan_members i (st\<lparr>index2component := (index2component st)(i \<mapsto> c)\<rparr>) c of
        Inl e \<Rightarrow> Inl e
      | Inr st' \<Rightarrow> scan_components (Suc i) st' cs)"

definition build_classes :: "node list list \<Rightarrow> py_error + classes" where
  "build_classes cs = scan_components 0 empty_classes cs"

declare empty_classes_def [model_eval] build_classes_def [model_eval]

subsection \<open>Closed forms of the two loops\<close>

definition members_done :: "nat \<Rightarrow> classes \<Rightarrow> node list \<Rightarrow> classes" where
  "members_done i st c = st\<lparr>member2index := (\<lambda>n. if n \<in> set c then Some i else member2index st n),
     index2mgi := (case last_such is_mgi c of None \<Rightarrow> index2mgi st | Some r \<Rightarrow> (index2mgi st)(i \<mapsto> r))\<rparr>"

lemma scan_members_eq:
  "scan_members i st c = (if \<forall>m \<in> set c. triple m then Inr (members_done i st c) else Inl ValueError)"
proof (induction c arbitrary: st)
  case Nil
  then show ?case by (simp add: members_done_def)
next
  case (Cons m ms)
  show ?case
  proof (cases "triple m")
    case False
    then show ?thesis by (simp add: unpack3_not_triple)
  next
    case True
    then obtain f ns nm where m: "m = [f, ns, nm]" using unpack3_triple by blast
    let ?st1 = "st\<lparr>member2index := (member2index st)(m \<mapsto> i)\<rparr>"
    let ?st2 = "if ''MGI'' = ns then ?st1\<lparr>index2mgi := (index2mgi ?st1)(i \<mapsto> m)\<rparr> else ?st1"
    have step: "scan_members i st (m # ms) = scan_members i ?st2 ms"
      by (simp add: m Let_def)
    have "members_done i ?st2 ms = members_done i st (m # ms)"
      by (auto simp: members_done_def m is_mgi_def last_such_Cons fun_eq_iff
          split: option.splits)
    with step Cons.IH [of ?st2] True show ?thesis by simp
  qed
qed

definition components_done :: "nat \<Rightarrow> classes \<Rightarrow> node list list \<Rightarrow> classes" where
  "components_done i st cs = st\<lparr>
     index2component := (\<lambda>j. if i \<le> j \<and> j < i + length cs then Some (cs ! (j - i))
                             else index2component st j),
     member2index := (\<lambda>n. case last_such (\<lambda>j. n \<in> set (cs ! j)) [0..<length cs] of
                             Some j \<Rightarrow> Some (i + j) | None \<Rightarrow> member2index st n),
     index2mgi := (\<lambda>j. if i \<le> j \<and> j < i + length cs \<and> last_such is_mgi (cs ! (j - i)) \<noteq> None
                       then last_such is_mgi (cs ! (j - i)) else index2mgi st j)\<rparr>"

lemma components_done_Cons:
  "components_done (Suc i) (members_done i (st\<lparr>index2component := (index2component st)(i \<mapsto> c)\<rparr>) c) cs =
   components_done i st (c # cs)"
  (is "?l = ?r")
proof (rule classes.equality)
  show "index2component ?l = index2component ?r"
    by (auto simp: fun_eq_iff components_done_def members_done_def nth_Cons' Suc_diff_Suc)
  show "member2index ?l = member2index ?r"
    by (auto simp del: upt_Suc simp: fun_eq_iff components_done_def members_done_def
        last_such_upt_Suc split: option.splits)
  show "index2mgi ?l = index2mgi ?r"
    by (auto simp: fun_eq_iff components_done_def members_done_def nth_Cons' Suc_diff_Suc
        split: option.splits)
  show "classes.more ?l = classes.more ?r"
    by (simp add: components_done_def members_done_def)
qed

lemma scan_components_eq:
  "scan_components i st cs =
     (if \<forall>c \<in> set cs. \<forall>m \<in> set c. triple m then Inr (components_done i st cs) else Inl ValueError)"
proof (induction cs arbitrary: i st)
  case Nil
  have "components_done i st [] = st"
    by (rule classes.equality) (auto simp: components_done_def fun_eq_iff)
  then show ?case by simp
next
  case (Cons c cs)
  show ?case
    using Cons.IH [of "Suc i"] components_done_Cons [of i st c cs]
    by (simp add: scan_members_eq)
qed

subsection \<open>What the cell computes\<close>

lemma build_classes_eq:
  "build_classes cs =
     (if \<forall>c \<in> set cs. \<forall>m \<in> set c. triple m then Inr (components_done 0 empty_classes cs)
      else Inl ValueError)"
  by (simp add: build_classes_def scan_components_eq)

text \<open>
  C10. Cell 11 completes exactly when every member of every component is a triple; any
  other member stops it with ValueError.
\<close>

theorem build_classes_ok:
  "(\<exists>st. build_classes cs = Inr st) \<longleftrightarrow> (\<forall>c \<in> set cs. \<forall>m \<in> set c. triple m)"
  by (simp add: build_classes_eq)

theorem build_classes_error:
  "build_classes cs = Inl e \<Longrightarrow> e = ValueError \<and> (\<exists>c \<in> set cs. \<exists>m \<in> set c. \<not> triple m)"
  by (simp add: build_classes_eq split: if_splits)

lemma build_classes_Inr:
  "build_classes cs = Inr st \<Longrightarrow> st = components_done 0 empty_classes cs"
  by (simp add: build_classes_eq split: if_splits)

lemma build_classes_index2component:
  "build_classes cs = Inr st \<Longrightarrow>
     index2component st j = (if j < length cs then Some (cs ! j) else None)"
  by (drule build_classes_Inr) (simp add: components_done_def empty_classes_def)

text \<open>
  C8. After cell 11, \<^verbatim>\<open>index2mgi[i]\<close> is the last MGI member of component
  \<open>i\<close> in iteration order, and is absent when the component has none: the tie-break
  between several MGI members is the iteration order of the component.
\<close>

theorem build_classes_index2mgi:
  "build_classes cs = Inr st \<Longrightarrow>
     index2mgi st j = (if j < length cs then last_such is_mgi (cs ! j) else None)"
  by (drule build_classes_Inr) (auto simp: components_done_def empty_classes_def)

lemma build_classes_member2index_last:
  "build_classes cs = Inr st \<Longrightarrow>
     member2index st n = last_such (\<lambda>j. n \<in> set (cs ! j)) [0..<length cs]"
  by (drule build_classes_Inr) (simp add: components_done_def empty_classes_def split: option.splits)

text \<open>
  C9. When the components are pairwise disjoint (as connected components are),
  \<^verbatim>\<open>member2index\<close> sends every member to the index of its component and
  nothing else.
\<close>

theorem build_classes_member2index:
  assumes "build_classes cs = Inr st" and "disjoint_lists cs"
  shows "member2index st n = Some j \<longleftrightarrow> j < length cs \<and> n \<in> set (cs ! j)"
proof
  assume "member2index st n = Some j"
  with assms(1) have "last_such (\<lambda>j. n \<in> set (cs ! j)) [0..<length cs] = Some j"
    by (simp add: build_classes_member2index_last)
  from last_such_Some [OF this] show "j < length cs \<and> n \<in> set (cs ! j)" by simp
next
  assume "j < length cs \<and> n \<in> set (cs ! j)"
  with assms show "member2index st n = Some j"
    by (simp add: build_classes_member2index_last last_such_index_unique)
qed

text \<open>
  C27. The indices cell 11 stores are bounded by the number of components: the keys of
  \<^verbatim>\<open>index2component\<close> are exactly \<open>0, \<dots>, n - 1\<close> for \<open>n\<close> components, every
  value of \<^verbatim>\<open>member2index\<close> and every key of \<^verbatim>\<open>index2mgi\<close> is below \<open>n\<close>, and the
  keys of \<^verbatim>\<open>member2index\<close> are exactly the members of the components.
\<close>

theorem build_classes_index_bounds:
  assumes "build_classes cs = Inr st"
  shows "dom (index2component st) = {..<length cs} \<and> ran (member2index st) \<subseteq> {..<length cs} \<and>
    dom (index2mgi st) \<subseteq> {..<length cs} \<and> dom (member2index st) = (\<Union>c \<in> set cs. set c)"
proof (intro conjI)
  show "dom (index2component st) = {..<length cs}"
    using build_classes_index2component [OF assms] by (auto split: if_splits)
  show "ran (member2index st) \<subseteq> {..<length cs}"
  proof
    fix j assume "j \<in> ran (member2index st)"
    then obtain n where "member2index st n = Some j" by (auto simp: ran_def)
    then have "last_such (\<lambda>j. n \<in> set (cs ! j)) [0..<length cs] = Some j"
      by (simp add: build_classes_member2index_last [OF assms])
    from last_such_Some [OF this] show "j \<in> {..<length cs}" by simp
  qed
  show "dom (index2mgi st) \<subseteq> {..<length cs}"
    using build_classes_Inr [OF assms]
    by (auto simp: components_done_def empty_classes_def split: if_splits)
  have "n \<in> dom (member2index st) \<longleftrightarrow> (\<exists>j < length cs. n \<in> set (cs ! j))" for n
    by (auto simp: domIff build_classes_member2index_last [OF assms] last_such_None_iff)
  moreover have "(\<exists>j < length cs. n \<in> set (cs ! j)) \<longleftrightarrow> (\<exists>c \<in> set cs. n \<in> set c)" for n
    by (metis in_set_conv_nth)
  ultimately show "dom (member2index st) = (\<Union>c \<in> set cs. set c)" by blast
qed

abbreviation two_mgi_component :: "node list" where
  "two_mgi_component \<equiv> [[''Gene'', ''HGNC'', ''A''], [''Gene'', ''MGI'', ''A1''], [''Gene'', ''MGI'', ''A2'']]"

theorem build_classes_index2mgi_witness:
  "\<exists>st. build_classes [two_mgi_component] = Inr st \<and> index2mgi st 0 = Some [''Gene'', ''MGI'', ''A2'']"
proof -
  obtain st where st: "build_classes [two_mgi_component] = Inr st"
    by (simp add: build_classes_eq)
  from build_classes_index2mgi [OF st, of 0] st show ?thesis
    by (simp add: last_such_def is_mgi_def)
qed

theorem build_classes_member2index_witness:
  "\<exists>st. build_classes [two_mgi_component, [[''Gene'', ''RGD'', ''B'']]] = Inr st \<and>
     disjoint_lists [two_mgi_component, [[''Gene'', ''RGD'', ''B'']]] \<and>
     member2index st [''Gene'', ''RGD'', ''B''] = Some 1"
proof -
  obtain st where st: "build_classes [two_mgi_component, [[''Gene'', ''RGD'', ''B'']]] = Inr st"
    by (simp add: build_classes_eq)
  have d: "disjoint_lists [two_mgi_component, [[''Gene'', ''RGD'', ''B'']]]"
    by (simp add: disjoint_lists_def)
  from build_classes_member2index [OF st d, of "[''Gene'', ''RGD'', ''B'']" 1] st d show ?thesis
    by simp
qed

theorem build_classes_ok_witness:
  "(\<exists>st. build_classes [two_mgi_component] = Inr st) \<and>
   \<not> (\<exists>st. build_classes [[[''Gene'', ''HGNC'']]] = Inr st)"
  using build_classes_ok [of "[two_mgi_component]"] build_classes_ok [of "[[[''Gene'', ''HGNC'']]]"]
  by (simp add: triple_def)

theorem build_classes_index_bounds_witness:
  "\<exists>st. build_classes [two_mgi_component, [[''Gene'', ''RGD'', ''B'']]] = Inr st \<and>
     dom (index2component st) = {0, 1} \<and> ran (member2index st) \<subseteq> {0, 1} \<and>
     dom (index2mgi st) \<subseteq> {0, 1}"
proof -
  obtain st where st: "build_classes [two_mgi_component, [[''Gene'', ''RGD'', ''B'']]] = Inr st"
    by (simp add: build_classes_eq)
  have "{..<length [two_mgi_component, [[''Gene'', ''RGD'', ''B'']]]} = {0, 1::nat}" by auto
  with build_classes_index_bounds [OF st] st show ?thesis by auto
qed

end
