(* ===== verification/Canonical.thy ===== *)
theory Canonical
  imports Classes
begin

text \<open>
  Cell 12 of the notebook, the canonical mapping, and the composition of cells 10 to 12:
  \<^verbatim>\<open>
  mapping = {}
  for function, namepace, name in orthology_undirected:
      if (function, namepace, name) not in member2index:
          continue
      index = member2index[function, namepace, name]
      if index not in index2mgi:
          continue
      mapping[function, namepace, name] = index2mgi[index]
  \<close>
  \<open>mapping_loop\<close> is the loop over the nodes of the undirected graph, with both
  \<^verbatim>\<open>continue\<close>s and the \<^verbatim>\<open>ValueError\<close> of the unpacking;
  \<open>orthology_mapping\<close> runs \<^verbatim>\<open>to_undirected\<close>, the components, cell 11 and
  cell 12 in sequence and returns the dictionary \<^verbatim>\<open>mapping\<close>. The lemmas give
  closed forms: a node is mapped exactly when it is a node of the graph and the last MGI
  member of its component exists, and then to that member.
\<close>

definition lookup_canonical :: "classes \<Rightarrow> node \<Rightarrow> node option" where
  "lookup_canonical st n = (case member2index st n of None \<Rightarrow> None | Some index \<Rightarrow> index2mgi st index)"

fun mapping_loop :: "classes \<Rightarrow> (node \<rightharpoonup> node) \<Rightarrow> node list \<Rightarrow> py_error + (node \<rightharpoonup> node)" where
  "mapping_loop st mapping [] = Inr mapping"
| "mapping_loop st mapping (n # ns) =
     (case unpack3 n of
        Inl e \<Rightarrow> Inl e
      | Inr (function, namepace, name) \<Rightarrow>
          (case member2index st [function, namepace, name] of
             None \<Rightarrow> mapping_loop st mapping ns
           | Some index \<Rightarrow>
               (case index2mgi st index of
                  None \<Rightarrow> mapping_loop st mapping ns
                | Some r \<Rightarrow> mapping_loop st (mapping([function, namepace, name] \<mapsto> r)) ns)))"

definition build_mapping :: "classes \<Rightarrow> node list \<Rightarrow> py_error + (node \<rightharpoonup> node)" where
  "build_mapping st ns = mapping_loop st Map.empty ns"

definition orthology_mapping :: "bel_graph \<Rightarrow> py_error + (node \<rightharpoonup> node)" where
  "orthology_mapping orthology =
     (let orthology_undirected = to_undirected orthology in
      case build_classes (connected_components orthology_undirected) of
        Inl e \<Rightarrow> Inl e
      | Inr st \<Rightarrow> build_mapping st (unodes orthology_undirected))"

declare lookup_canonical_def [model_eval] build_mapping_def [model_eval]
  orthology_mapping_def [model_eval]

subsection \<open>Closed forms\<close>

lemma mapping_loop_eq:
  "mapping_loop st mapping ns =
     (if \<forall>n \<in> set ns. triple n
      then Inr (\<lambda>n. if n \<in> set ns \<and> lookup_canonical st n \<noteq> None then lookup_canonical st n
                   else mapping n)
      else Inl ValueError)"
proof (induction ns arbitrary: mapping)
  case Nil
  then show ?case by simp
next
  case (Cons n ns)
  show ?case
  proof (cases "triple n")
    case False
    then show ?thesis by (simp add: unpack3_not_triple)
  next
    case True
    then obtain f ns' nm where n: "n = [f, ns', nm]" using unpack3_triple by blast
    have step: "mapping_loop st mapping (n # ns) =
      mapping_loop st (case lookup_canonical st n of None \<Rightarrow> mapping | Some r \<Rightarrow> mapping(n \<mapsto> r)) ns"
      by (simp add: n lookup_canonical_def split: option.splits)
    show ?thesis
      unfolding step Cons.IH using True
      by (auto simp: fun_eq_iff split: option.splits)
  qed
qed

text \<open>
  C11. Cell 12 maps exactly the triples it iterates over that have a class with an MGI
  member, each to that member, and raises ValueError on a node that is not a triple.
\<close>

theorem build_mapping_eq:
  "build_mapping st ns =
     (if \<forall>n \<in> set ns. triple n
      then Inr (\<lambda>n. if n \<in> set ns then lookup_canonical st n else None)
      else Inl ValueError)"
  by (auto simp: build_mapping_def mapping_loop_eq fun_eq_iff)

theorem build_mapping_eq_witness:
  "build_mapping empty_classes [[''Gene'', ''HGNC'', ''A'']] = Inr Map.empty \<and>
   build_mapping empty_classes [[''Gene'', ''HGNC'']] = Inl ValueError"
  using build_mapping_eq [of empty_classes "[[''Gene'', ''HGNC'', ''A'']]"]
    build_mapping_eq [of empty_classes "[[''Gene'', ''HGNC'']]"]
  by (simp add: triple_def lookup_canonical_def empty_classes_def fun_eq_iff)

lemma orthology_mapping_eq:
  "orthology_mapping g =
     (if (\<forall>c \<in> set (connected_components (to_undirected g)). \<forall>m \<in> set c. triple m) \<and>
         (\<forall>n \<in> set (nodes g). triple n)
      then Inr (\<lambda>n. if n \<in> set (nodes g)
        then lookup_canonical (components_done 0 empty_classes (connected_components (to_undirected g))) n
        else None)
      else Inl ValueError)"
  by (auto simp: orthology_mapping_def build_classes_eq build_mapping_def mapping_loop_eq Let_def
      fun_eq_iff)

lemma orthology_mapping_Inr:
  assumes "orthology_mapping g = Inr m"
  shows "m n = (if n \<in> set (nodes g)
                then lookup_canonical (components_done 0 empty_classes (connected_components (to_undirected g))) n
                else None)"
  using assms by (auto simp: orthology_mapping_eq split: if_splits)

lemma orthology_mapping_component:
  assumes "orthology_mapping g = Inr m" and "n \<in> set (nodes g)"
  shows "\<exists>c \<in> set (connected_components (to_undirected g)).
           n \<in> set c \<and> set c = cls (to_undirected g) n \<and> m n = last_such is_mgi c"
proof -
  let ?H = "to_undirected g"
  let ?cs = "connected_components ?H"
  let ?st = "components_done 0 empty_classes ?cs"
  from connected_components_partition [of ?H] assms(2)
  obtain c where c: "c \<in> set ?cs" "n \<in> set c" by auto
  then obtain j where j: "j < length ?cs" "?cs ! j = c" by (auto simp: in_set_conv_nth)
  from connected_components_partition [of ?H] c obtain v where "set c = cls ?H v" by auto
  with c(2) have cn: "set c = cls ?H n" by (simp add: cls_eq)
  have bc: "build_classes ?cs = Inr ?st"
    using assms(1) by (auto simp: orthology_mapping_eq build_classes_eq split: if_splits)
  have "member2index ?st n = Some j"
    using build_classes_member2index_last [OF bc] last_such_index_unique
      connected_components_partition [of ?H] j c(2) by auto
  then have "lookup_canonical ?st n = last_such is_mgi c"
    using build_classes_Inr [OF bc] j
    by (simp add: lookup_canonical_def components_done_def empty_classes_def)
  with orthology_mapping_Inr [OF assms(1), of n] assms(2) c cn show ?thesis by auto
qed

lemma mapping_by_component:
  assumes "orthology_mapping g = Inr m" and "c \<in> set (connected_components (to_undirected g))"
    and "n \<in> set c" and "n \<in> set (nodes g)"
  shows "m n = last_such is_mgi c"
proof -
  from orthology_mapping_component [OF assms(1,4)] obtain c' where
    c': "c' \<in> set (connected_components (to_undirected g))" "n \<in> set c'" "m n = last_such is_mgi c'"
    by blast
  from connected_components_partition [of "to_undirected g"] assms(2,3) c'(1,2) have "c = c'"
    by (intro components_unique [of "connected_components (to_undirected g)"]) auto
  with c'(3) show ?thesis by simp
qed

lemma orthology_mapping_total:
  assumes "wf_graph g" and "\<forall>n \<in> set (nodes g). triple n"
  shows "\<exists>m. orthology_mapping g = Inr m"
  using components_wf [OF assms(1)] assms(2) by (auto simp: orthology_mapping_eq)

text \<open>A representative is a node of the graph and is mapped to itself.\<close>

lemma mapping_target:
  assumes "wf_graph g" and "orthology_mapping g = Inr m" and "m n = Some r"
  shows "r \<in> set (nodes g) \<and> m r = Some r"
proof -
  have n: "n \<in> set (nodes g)"
    using orthology_mapping_Inr [OF assms(2), of n] assms(3) by (simp split: if_splits)
  from orthology_mapping_component [OF assms(2) n] obtain c where
    c: "c \<in> set (connected_components (to_undirected g))" "m n = last_such is_mgi c" by blast
  with assms(3) have "last_such is_mgi c = Some r" by simp
  then have r: "r \<in> set c" by (simp add: last_such_Some)
  with components_wf [OF assms(1) c(1)] have rn: "r \<in> set (nodes g)" by blast
  from mapping_by_component [OF assms(2) c(1) r rn] c(2) assms(3) rn show ?thesis by simp
qed

end
