(* ===== verification/Relabel.thy ===== *)
theory Relabel
  imports Graphs
begin

text \<open>
  Cells 17 and 18 of the notebook, applied to the large corpus \<open>g\<close>:
  \<^verbatim>\<open>
  for name, data in g.nodes_iter(data=True):
      if data['type'] in ('Gene','RNA','Protein') and name in mapping:
          g.node[name].update(orthology_undirected.node[mapping[name]])
  g_relabeled = nx.relabel_nodes(g, lambda n: mapping[n] if n in mapping else n, copy=False)
  \<close>
  \<open>merge_one\<close> is the body of the first loop (a node without a \<^verbatim>\<open>type\<close>
  attribute raises \<^verbatim>\<open>KeyError\<close>, as does a mapping target that is not an
  orthology node) and \<open>map_node_data\<close> the whole cell. Cell 18 calls networkx 1.11's
  \<^verbatim>\<open>relabel_nodes\<close> in place, modelled as the library implements it:
  \<open>relabel_dict\<close> is the dictionary \<^verbatim>\<open>{n: f(n) for n in G}\<close>; when its keys
  and values overlap, the nodes are processed in the order of
  \<^verbatim>\<open>topological_sort(D, reverse=True)\<close> on the digraph \<open>D\<close> of the dictionary
  without self-loops (\<open>topo_chase\<close> is one depth-first descent; a cycle raises
  \<^verbatim>\<open>NetworkXUnfeasible\<close>), otherwise in node order (Python leaves the order of the
  label set open); \<open>relabel_one\<close> is one round of the loop: \<^verbatim>\<open>add_node(new,
  attr_dict=G.node[old])\<close> (old attributes override on a collision; an \<open>old\<close> that is
  no longer a node raises \<^verbatim>\<open>NetworkXError\<close>), the out- and
  in-edges of \<open>old\<close> re-pointed with their keys, \<^verbatim>\<open>remove_node(old)\<close>, and
  \<^verbatim>\<open>add_edges_from\<close>, which merges the data of an edge whose \<open>(u, v, key)\<close> slot
  is already taken.
\<close>

subsection \<open>Cell 17: merging the orthology node data\<close>

definition allowed_types :: "string list" where
  "allowed_types = [''Gene'', ''RNA'', ''Protein'']"

definition merge_one :: "ugraph \<Rightarrow> (node \<rightharpoonup> node) \<Rightarrow> node \<times> attrs \<Rightarrow> py_error + node \<times> attrs" where
  "merge_one H mapping nd =
     (case nd of (name, data) \<Rightarrow>
        (case data ''type'' of
           None \<Rightarrow> Inl KeyError
         | Some t \<Rightarrow>
             (if t \<in> set allowed_types then
                (case mapping name of
                   None \<Rightarrow> Inr (name, data)
                 | Some c \<Rightarrow>
                     (case map_of (u_node H) c of
                        None \<Rightarrow> Inl KeyError
                      | Some odata \<Rightarrow> Inr (name, data ++ odata)))
              else Inr (name, data))))"

fun merge_node_data :: "ugraph \<Rightarrow> (node \<rightharpoonup> node) \<Rightarrow> (node \<times> attrs) list \<Rightarrow> py_error + (node \<times> attrs) list" where
  "merge_node_data H mapping [] = Inr []"
| "merge_node_data H mapping (nd # rest) =
     (case merge_one H mapping nd of
        Inl e \<Rightarrow> Inl e
      | Inr nd' \<Rightarrow> map_sum id (Cons nd') (merge_node_data H mapping rest))"

definition map_node_data :: "ugraph \<Rightarrow> (node \<rightharpoonup> node) \<Rightarrow> bel_graph \<Rightarrow> py_error + bel_graph" where
  "map_node_data H mapping g = map_sum id (\<lambda>ns. g\<lparr>g_node := ns\<rparr>) (merge_node_data H mapping (g_node g))"

subsection \<open>Cell 18: networkx relabel_nodes(G, f, copy=False)\<close>

definition relabel_dict :: "bel_graph \<Rightarrow> (node \<Rightarrow> node) \<Rightarrow> (node \<times> node) list" where
  "relabel_dict g f = map (\<lambda>n. (n, f n)) (nodes g)"

definition dgraph_nodes :: "(node \<times> node) list \<Rightarrow> node list" where
  "dgraph_nodes m = first_occ (concat (map (\<lambda>(u, v). [u, v]) m))"

definition dsucc :: "(node \<times> node) list \<Rightarrow> node \<Rightarrow> node option" where
  "dsucc m w = (case map_of m w of Some s \<Rightarrow> if s = w then None else Some s | None \<Rightarrow> None)"

lemma dsucc_snd: "dsucc m w = Some s \<Longrightarrow> s \<in> set (map snd m) \<and> s \<noteq> w"
  by (auto simp: dsucc_def split: option.splits if_splits dest: map_of_SomeD intro: rev_image_eqI)

function topo_chase :: "(node \<times> node) list \<Rightarrow> node list \<Rightarrow> node list \<Rightarrow> py_error + node list" where
  "topo_chase m explored [] = Inr []"
| "topo_chase m explored (w # ws) =
     (case dsucc m w of
        None \<Rightarrow> Inr (w # ws)
      | Some s \<Rightarrow>
          (if s \<in> set explored then Inr (w # ws)
           else if s \<in> set (w # ws) then Inl NetworkXUnfeasible
           else topo_chase m explored (s # w # ws)))"
  by pat_completeness auto
termination
proof (relation "measure (\<lambda>(m, explored, path). card (set (map snd m) - set path))")
  show "wf (measure (\<lambda>(m, explored, path). card (set (map snd m) - set path)))" by simp
next
  fix m explored w ws s
  assume s: "dsucc m w = Some s" and "s \<notin> set explored" and notin: "s \<notin> set (w # ws)"
  from dsucc_snd [OF s] have "s \<in> set (map snd m)" by simp
  with notin have "set (map snd m) - set (s # w # ws) \<subset> set (map snd m) - set (w # ws)" by auto
  then show "((m, explored, s # w # ws), m, explored, w # ws)
      \<in> measure (\<lambda>(m, explored, path). card (set (map snd m) - set path))"
    by (simp add: psubset_card_mono)
qed

fun topo_loop :: "(node \<times> node) list \<Rightarrow> node list \<Rightarrow> node list \<Rightarrow> py_error + node list" where
  "topo_loop m order [] = Inr order"
| "topo_loop m order (v # vs) =
     (if v \<in> set order then topo_loop m order vs
      else (case topo_chase m order [v] of
              Inl e \<Rightarrow> Inl e
            | Inr p \<Rightarrow> topo_loop m (order @ p) vs))"

definition topological_sort_rev :: "(node \<times> node) list \<Rightarrow> py_error + node list" where
  "topological_sort_rev m = topo_loop m [] (dgraph_nodes m)"

definition add_node_attrs :: "bel_graph \<Rightarrow> node \<Rightarrow> attrs \<Rightarrow> bel_graph" where
  "add_node_attrs g n d =
     g\<lparr>g_node := (case map_of (g_node g) n of
                   None \<Rightarrow> g_node g @ [(n, d)]
                 | Some d0 \<Rightarrow> AList.update n (d0 ++ d) (g_node g))\<rparr>"

definition add_edge_data :: "edge list \<Rightarrow> edge \<Rightarrow> edge list" where
  "add_edge_data es e =
     (case e of (key, d) \<Rightarrow>
        AList.update key ((case map_of es key of None \<Rightarrow> Map.empty | Some d0 \<Rightarrow> d0) ++ d) es)"

definition remove_node :: "bel_graph \<Rightarrow> node \<Rightarrow> bel_graph" where
  "remove_node g n =
     \<lparr>g_node = filter (\<lambda>(x, d). x \<noteq> n) (g_node g),
      g_edges = filter (\<lambda>((u, v, k), d). u \<noteq> n \<and> v \<noteq> n) (g_edges g)\<rparr>"

definition moved_edges :: "bel_graph \<Rightarrow> node \<Rightarrow> node \<Rightarrow> edge list" where
  "moved_edges g old new =
     map (\<lambda>((u, v, k), d). ((new, if v = old then new else v, k), d))
       (filter (\<lambda>((u, v, k), d). u = old) (g_edges g)) @
     map (\<lambda>((u, v, k), d). ((if u = old then new else u, new, k), d))
       (filter (\<lambda>((u, v, k), d). v = old) (g_edges g))"

definition relabel_one :: "(node \<times> node) list \<Rightarrow> bel_graph \<Rightarrow> node \<Rightarrow> py_error + bel_graph" where
  "relabel_one m g old =
     (case map_of m old of
        None \<Rightarrow> Inr g
      | Some new \<Rightarrow>
          (if new = old then Inr g
           else (case map_of (g_node g) old of
                   None \<Rightarrow> Inl NetworkXError
                 | Some d \<Rightarrow>
                     (let g1 = add_node_attrs g new d;
                          es = moved_edges g1 old new;
                          g2 = remove_node g1 old
                      in Inr (g2\<lparr>g_edges := fold (\<lambda>e es. add_edge_data es e) es (g_edges g2)\<rparr>)))))"

fun relabel_loop :: "(node \<times> node) list \<Rightarrow> bel_graph \<Rightarrow> node list \<Rightarrow> py_error + bel_graph" where
  "relabel_loop m g [] = Inr g"
| "relabel_loop m g (old # olds) =
     (case relabel_one m g old of Inl e \<Rightarrow> Inl e | Inr g' \<Rightarrow> relabel_loop m g' olds)"

definition relabel_inplace :: "bel_graph \<Rightarrow> (node \<times> node) list \<Rightarrow> py_error + bel_graph" where
  "relabel_inplace g m =
     (if list_ex (\<lambda>x. x \<in> set (map snd m)) (map fst m)
      then (case topological_sort_rev m of
              Inl e \<Rightarrow> Inl e
            | Inr order \<Rightarrow> relabel_loop m g order)
      else relabel_loop m g (map fst m))"

definition relabel_nodes :: "bel_graph \<Rightarrow> (node \<Rightarrow> node) \<Rightarrow> py_error + bel_graph" where
  "relabel_nodes g f = relabel_inplace g (relabel_dict g f)"

definition relabel_fn :: "(node \<rightharpoonup> node) \<Rightarrow> node \<Rightarrow> node" where
  "relabel_fn mapping n = (case mapping n of Some c \<Rightarrow> c | None \<Rightarrow> n)"

declare allowed_types_def [model_eval] merge_one_def [model_eval] map_node_data_def [model_eval]
  relabel_dict_def [model_eval] dgraph_nodes_def [model_eval] dsucc_def [model_eval]
  topological_sort_rev_def [model_eval] add_node_attrs_def [model_eval] add_edge_data_def [model_eval]
  remove_node_def [model_eval] moved_edges_def [model_eval] relabel_one_def [model_eval]
  relabel_inplace_def [model_eval] relabel_nodes_def [model_eval] relabel_fn_def [model_eval]

subsection \<open>Closed form of cell 17\<close>

definition merged_attrs :: "ugraph \<Rightarrow> (node \<rightharpoonup> node) \<Rightarrow> node \<Rightarrow> attrs \<Rightarrow> attrs" where
  "merged_attrs H mapping n d =
     (case (d ''type'', mapping n) of
        (Some t, Some c) \<Rightarrow>
          (if t \<in> set allowed_types then (case map_of (u_node H) c of Some od \<Rightarrow> d ++ od | None \<Rightarrow> d) else d)
      | _ \<Rightarrow> d)"

definition merge_ok :: "ugraph \<Rightarrow> (node \<rightharpoonup> node) \<Rightarrow> node \<Rightarrow> attrs \<Rightarrow> bool" where
  "merge_ok H mapping n d \<longleftrightarrow>
     (case d ''type'' of
        None \<Rightarrow> False
      | Some t \<Rightarrow> (case mapping n of
                    None \<Rightarrow> True
                  | Some c \<Rightarrow> t \<in> set allowed_types \<longrightarrow> c \<in> set (unodes H)))"

lemma merge_one_eq:
  "merge_one H mapping (n, d) =
     (if merge_ok H mapping n d then Inr (n, merged_attrs H mapping n d) else Inl KeyError)"
  by (auto simp: merge_one_def merge_ok_def merged_attrs_def unodes_def
      map_of_eq_None_iff [symmetric] split: option.splits dest: map_of_Some_fst)

lemma merge_node_data_eq:
  "merge_node_data H mapping ns =
     (if \<forall>(n, d) \<in> set ns. merge_ok H mapping n d
      then Inr (map (\<lambda>(n, d). (n, merged_attrs H mapping n d)) ns) else Inl KeyError)"
proof (induction ns)
  case Nil
  then show ?case by simp
next
  case (Cons nd ns)
  obtain n d where nd: "nd = (n, d)" by (cases nd)
  show ?case using Cons.IH by (simp add: nd merge_one_eq)
qed

text \<open>
  C15. Cell 17 either raises \<^verbatim>\<open>KeyError\<close> (a node without \<^verbatim>\<open>type\<close>, or a
  mapped Gene/RNA/Protein node whose target is no orthology node) or keeps the nodes, their
  order and the edges, and merges into each mapped Gene/RNA/Protein node the attributes of
  its orthology representative, the representative's values winning.
\<close>

theorem map_node_data_eq:
  "map_node_data H mapping g =
     (if \<forall>(n, d) \<in> set (g_node g). merge_ok H mapping n d
      then Inr (g\<lparr>g_node := map (\<lambda>(n, d). (n, merged_attrs H mapping n d)) (g_node g)\<rparr>)
      else Inl KeyError)"
  by (simp add: map_node_data_def merge_node_data_eq)

subsection \<open>The topological order exists for an idempotent relabelling\<close>

definition no_chain :: "(node \<times> node) list \<Rightarrow> bool" where
  "no_chain m \<longleftrightarrow> (\<forall>w s. dsucc m w = Some s \<longrightarrow> dsucc m s = None)"

lemma topo_chase_single:
  assumes "no_chain m" and "v \<notin> set explored"
  shows "\<exists>p. topo_chase m explored [v] = Inr p \<and> distinct p \<and> v \<in> set p \<and> set p \<inter> set explored = {}"
proof (cases "dsucc m v")
  case None
  then show ?thesis using assms(2) by simp
next
  case (Some s)
  show ?thesis
  proof (cases "s \<in> set explored")
    case True
    with Some assms(2) show ?thesis by simp
  next
    case False
    from dsucc_snd [OF Some] have "s \<noteq> v" by simp
    moreover from assms(1) Some have "dsucc m s = None" by (simp add: no_chain_def)
    ultimately show ?thesis using Some False assms(2) by simp
  qed
qed

lemma topo_loop_ok:
  assumes "no_chain m" and "distinct order"
  shows "\<exists>order'. topo_loop m order vs = Inr order' \<and> distinct order' \<and> set order \<union> set vs \<subseteq> set order'"
  using assms(2)
proof (induction vs arbitrary: order)
  case Nil
  then show ?case by simp
next
  case (Cons v vs)
  show ?case
  proof (cases "v \<in> set order")
    case True
    with Cons.IH [OF Cons.prems] show ?thesis by auto
  next
    case False
    from topo_chase_single [OF assms(1) False] obtain p where
      p: "topo_chase m order [v] = Inr p" "distinct p" "v \<in> set p" "set p \<inter> set order = {}" by blast
    with Cons.prems have "distinct (order @ p)" by auto
    from Cons.IH [OF this] obtain order' where
      "topo_loop m (order @ p) vs = Inr order'" "distinct order'" "set (order @ p) \<union> set vs \<subseteq> set order'"
      by blast
    with p False show ?thesis by auto
  qed
qed

lemma map_of_relabel_dict: "map_of (relabel_dict g f) x = (if x \<in> set (nodes g) then Some (f x) else None)"
  by (simp add: relabel_dict_def map_of_map_restrict restrict_map_def)

lemma no_chain_relabel_dict:
  assumes "\<forall>n \<in> set (nodes g). f (f n) = f n"
  shows "no_chain (relabel_dict g f)"
  using assms by (auto simp: no_chain_def dsucc_def map_of_relabel_dict split: if_splits)

lemma topological_sort_rev_ok:
  assumes "\<forall>n \<in> set (nodes g). f (f n) = f n"
  shows "\<exists>order. topological_sort_rev (relabel_dict g f) = Inr order \<and> distinct order \<and>
           set (nodes g) \<subseteq> set order"
proof -
  from topo_loop_ok [OF no_chain_relabel_dict [OF assms], of "[]" "dgraph_nodes (relabel_dict g f)"]
  obtain order where "topo_loop (relabel_dict g f) [] (dgraph_nodes (relabel_dict g f)) = Inr order"
    "distinct order" "set (dgraph_nodes (relabel_dict g f)) \<subseteq> set order" by auto
  moreover have "set (nodes g) \<subseteq> set (dgraph_nodes (relabel_dict g f))"
    by (auto simp: dgraph_nodes_def relabel_dict_def)
  ultimately show ?thesis by (auto simp: topological_sort_rev_def)
qed

subsection \<open>The order is a reverse topological order\<close>

text \<open>
  \<open>chain_path\<close>: each node of a depth-first path is followed by the node it points to;
  \<open>succ_first\<close>: every node of a list comes after its successor in the relabel digraph.
\<close>

definition chain_path :: "(node \<times> node) list \<Rightarrow> node list \<Rightarrow> bool" where
  "chain_path m p \<longleftrightarrow> (\<forall>i. Suc i < length p \<longrightarrow> dsucc m (p ! Suc i) = Some (p ! i))"

definition succ_first :: "(node \<times> node) list \<Rightarrow> node list \<Rightarrow> bool" where
  "succ_first m xs \<longleftrightarrow> (\<forall>i < length xs. \<forall>s. dsucc m (xs ! i) = Some s \<longrightarrow> s \<in> set (take i xs))"

lemma chain_path_single [simp]: "chain_path m [v]"
  by (simp add: chain_path_def)

lemma chain_path_Cons2:
  "chain_path m (s # w # ws) \<longleftrightarrow> dsucc m w = Some s \<and> chain_path m (w # ws)"
proof
  assume c: "chain_path m (s # w # ws)"
  have "dsucc m w = Some s" using c [unfolded chain_path_def, rule_format, of 0] by simp
  moreover have "chain_path m (w # ws)"
    unfolding chain_path_def
  proof (intro allI impI)
    fix i assume "Suc i < length (w # ws)"
    with c [unfolded chain_path_def, rule_format, of "Suc i"]
    show "dsucc m ((w # ws) ! Suc i) = Some ((w # ws) ! i)" by simp
  qed
  ultimately show "dsucc m w = Some s \<and> chain_path m (w # ws)" ..
next
  assume h: "dsucc m w = Some s \<and> chain_path m (w # ws)"
  show "chain_path m (s # w # ws)"
    unfolding chain_path_def
  proof (intro allI impI)
    fix i assume i: "Suc i < length (s # w # ws)"
    show "dsucc m ((s # w # ws) ! Suc i) = Some ((s # w # ws) ! i)"
    proof (cases i)
      case 0
      with h show ?thesis by simp
    next
      case (Suc j)
      with i h show ?thesis by (simp add: chain_path_def)
    qed
  qed
qed

lemma topo_chase_chain:
  "topo_chase m explored path = Inr p \<Longrightarrow> chain_path m path \<Longrightarrow> path \<noteq> [] \<Longrightarrow>
   chain_path m p \<and> p \<noteq> [] \<and> (\<forall>s. dsucc m (hd p) = Some s \<longrightarrow> s \<in> set explored)"
proof (induction m explored path rule: topo_chase.induct)
  case (1 m explored)
  then show ?case by simp
next
  case (2 m explored w ws)
  show ?case
  proof (cases "dsucc m w")
    case None
    with "2.prems" show ?thesis by auto
  next
    case (Some s)
    show ?thesis
    proof (cases "s \<in> set explored")
      case True
      with Some "2.prems" show ?thesis by auto
    next
      case False
      with Some "2.prems"(1) have ns: "s \<notin> set (w # ws)"
        and r: "topo_chase m explored (s # w # ws) = Inr p"
        by (simp_all split: if_splits)
      have "chain_path m (s # w # ws)" using Some "2.prems"(2) by (simp add: chain_path_Cons2)
      from "2.IH" [OF Some False ns r this] show ?thesis by simp
    qed
  qed
qed

lemma succ_first_append:
  assumes "succ_first m order" and "chain_path m p" and "p \<noteq> []"
    and "\<forall>s. dsucc m (hd p) = Some s \<longrightarrow> s \<in> set order"
  shows "succ_first m (order @ p)"
  unfolding succ_first_def
proof (intro allI impI)
  fix i s
  assume i: "i < length (order @ p)" and s: "dsucc m ((order @ p) ! i) = Some s"
  show "s \<in> set (take i (order @ p))"
  proof (cases "i < length order")
    case True
    with assms(1) s show ?thesis by (auto simp: succ_first_def nth_append)
  next
    case False
    then obtain j where j: "i = length order + j" by (metis le_add_diff_inverse not_less)
    with i have jp: "j < length p" by simp
    show ?thesis
    proof (cases j)
      case 0
      with s j assms(3,4) show ?thesis by (simp add: nth_append hd_conv_nth)
    next
      case (Suc j')
      with jp assms(2) have "dsucc m (p ! j) = Some (p ! j')" by (simp add: chain_path_def)
      with s j have "s = p ! j'" by (simp add: nth_append)
      with Suc jp j show ?thesis by (simp add: take_Suc_conv_app_nth)
    qed
  qed
qed

lemma topo_loop_succ_first:
  "topo_loop m order vs = Inr order' \<Longrightarrow> succ_first m order \<Longrightarrow> succ_first m order'"
proof (induction vs arbitrary: order)
  case Nil
  then show ?case by simp
next
  case (Cons v vs)
  show ?case
  proof (cases "v \<in> set order")
    case True
    with Cons show ?thesis by simp
  next
    case False
    with Cons.prems(1) obtain p where p: "topo_chase m order [v] = Inr p"
      and r: "topo_loop m (order @ p) vs = Inr order'"
      by (auto split: sum.splits)
    from topo_chase_chain [OF p] have "chain_path m p" "p \<noteq> []"
      "\<forall>s. dsucc m (hd p) = Some s \<longrightarrow> s \<in> set order" by auto
    from succ_first_append [OF Cons.prems(2) this] have "succ_first m (order @ p)" .
    from Cons.IH [OF r this] show ?thesis .
  qed
qed

text \<open>
  C28. \<^verbatim>\<open>topological_sort(D, reverse=True)\<close> puts the new label of every node before
  the node itself (when the label is also a node to be relabelled), so
  \<^verbatim>\<open>_relabel_inplace\<close> moves a node away before another node takes its name.
\<close>

theorem topological_sort_rev_order:
  assumes "topological_sort_rev m = Inr order" and "i < length order" and "dsucc m (order ! i) = Some s"
  shows "\<exists>j < i. order ! j = s"
proof -
  have "succ_first m []" by (simp add: succ_first_def)
  with assms(1) have "succ_first m order"
    unfolding topological_sort_rev_def by (rule topo_loop_succ_first)
  with assms(2,3) have "s \<in> set (take i order)" by (simp add: succ_first_def)
  then obtain j where "j < length (take i order)" "take i order ! j = s" by (auto simp: in_set_conv_nth)
  then show ?thesis by auto
qed

subsection \<open>One round of the relabelling loop\<close>

lemma keys_map_filter:
  "fst ` set (map (\<lambda>(x, d). (G x, d)) (filter (\<lambda>(x, d). Q x) es)) = G ` {x \<in> fst ` set es. Q x}"
proof (intro set_eqI iffI)
  fix y
  assume "y \<in> fst ` set (map (\<lambda>(x, d). (G x, d)) (filter (\<lambda>(x, d). Q x) es))"
  then obtain x d where "(x, d) \<in> set es" "Q x" "y = G x" by auto
  then show "y \<in> G ` {x \<in> fst ` set es. Q x}" by force
next
  fix y
  assume "y \<in> G ` {x \<in> fst ` set es. Q x}"
  then obtain x d where xd: "(x, d) \<in> set es" "Q x" "y = G x" by force
  then have "(G x, d) \<in> set (map (\<lambda>(x, d). (G x, d)) (filter (\<lambda>(x, d). Q x) es))" by force
  with xd show "y \<in> fst ` set (map (\<lambda>(x, d). (G x, d)) (filter (\<lambda>(x, d). Q x) es))" by force
qed

lemma keys_moved_edges:
  "fst ` set (moved_edges g old new) =
     (\<lambda>(a, b, k). (if a = old then new else a, if b = old then new else b, k)) `
       {x \<in> fst ` set (g_edges g). fst x = old \<or> fst (snd x) = old}"
proof -
  let ?sub = "\<lambda>(a, b, k). (if a = old then new else a, if b = old then new else b, k)"
  have out: "map (\<lambda>((u, v, k), d). ((new, if v = old then new else v, k), d))
      (filter (\<lambda>((u, v, k), d). u = old) es) =
    map (\<lambda>(x, d). (?sub x, d)) (filter (\<lambda>(x, d). fst x = old) es)" for es :: "edge list"
    by (induction es) auto
  have inn: "map (\<lambda>((u, v, k), d). ((if u = old then new else u, new, k), d))
      (filter (\<lambda>((u, v, k), d). v = old) es) =
    map (\<lambda>(x, d). (?sub x, d)) (filter (\<lambda>(x, d). fst (snd x) = old) es)" for es :: "edge list"
    by (induction es) auto
  have "moved_edges g old new =
    map (\<lambda>(x, d). (?sub x, d)) (filter (\<lambda>(x, d). fst x = old) (g_edges g)) @
    map (\<lambda>(x, d). (?sub x, d)) (filter (\<lambda>(x, d). fst (snd x) = old) (g_edges g))"
    unfolding moved_edges_def out inn ..
  then have "fst ` set (moved_edges g old new) =
    ?sub ` {x \<in> fst ` set (g_edges g). fst x = old} \<union> ?sub ` {x \<in> fst ` set (g_edges g). fst (snd x) = old}"
    by (simp only: set_append image_Un keys_map_filter)
  also have "\<dots> = ?sub ` ({x \<in> fst ` set (g_edges g). fst x = old} \<union>
                            {x \<in> fst ` set (g_edges g). fst (snd x) = old})"
    by (simp only: image_Un)
  also have "{x \<in> fst ` set (g_edges g). fst x = old} \<union> {x \<in> fst ` set (g_edges g). fst (snd x) = old} =
             {x \<in> fst ` set (g_edges g). fst x = old \<or> fst (snd x) = old}"
    by blast
  finally show ?thesis .
qed

lemma keys_fold_add_edge_data:
  "fst ` set (fold (\<lambda>e es. add_edge_data es e) xs es) = fst ` set es \<union> fst ` set xs"
proof (induction xs arbitrary: es)
  case Nil
  then show ?case by simp
next
  case (Cons x xs)
  obtain key d where x: "x = (key, d)" by (cases x)
  from Cons.IH [of "add_edge_data es x"] show ?case
    by (auto simp: x add_edge_data_def dom_update)
qed

lemma nodes_add_node_attrs: "set (nodes (add_node_attrs g n d)) = insert n (set (nodes g))"
proof (cases "map_of (g_node g) n")
  case None
  then show ?thesis by (auto simp: add_node_attrs_def nodes_def)
next
  case (Some d0)
  then have "n \<in> fst ` set (g_node g)" by (metis map_of_SomeD fst_conv image_eqI)
  with Some show ?thesis by (auto simp: add_node_attrs_def nodes_def dom_update)
qed

lemma edges_add_node_attrs [simp]: "g_edges (add_node_attrs g n d) = g_edges g"
  by (simp add: add_node_attrs_def)

lemma nodes_remove_node: "set (nodes (remove_node g n)) = set (nodes g) - {n}"
  by (force simp: remove_node_def nodes_def)

lemma keys_remove_node:
  "fst ` set (g_edges (remove_node g n)) = {x \<in> fst ` set (g_edges g). fst x \<noteq> n \<and> fst (snd x) \<noteq> n}"
proof (intro set_eqI iffI)
  fix x
  assume "x \<in> fst ` set (g_edges (remove_node g n))"
  then obtain a b k d where "x = (a, b, k)" "((a, b, k), d) \<in> set (g_edges g)" "a \<noteq> n" "b \<noteq> n"
    by (auto simp: remove_node_def)
  then show "x \<in> {x \<in> fst ` set (g_edges g). fst x \<noteq> n \<and> fst (snd x) \<noteq> n}" by force
next
  fix x
  assume "x \<in> {x \<in> fst ` set (g_edges g). fst x \<noteq> n \<and> fst (snd x) \<noteq> n}"
  then obtain a b k d where "x = (a, b, k)" "((a, b, k), d) \<in> set (g_edges g)" "a \<noteq> n" "b \<noteq> n"
    by force
  then show "x \<in> fst ` set (g_edges (remove_node g n))"
    by (force simp: remove_node_def)
qed

theorem relabel_one_moves:
  assumes "map_of m old = Some new" and "new \<noteq> old" and "old \<in> set (nodes h)"
  shows "\<exists>h'. relabel_one m h old = Inr h' \<and> set (nodes h') = insert new (set (nodes h)) - {old} \<and>
     fst ` set (g_edges h') =
       (\<lambda>(a, b, k). (if a = old then new else a, if b = old then new else b, k)) ` fst ` set (g_edges h)"
proof -
  from assms(3) obtain d where d: "map_of (g_node h) old = Some d"
    by (auto simp: nodes_def dest: weak_map_of_SomeI)
  let ?g1 = "add_node_attrs h new d"
  let ?g2 = "remove_node ?g1 old"
  let ?sub = "\<lambda>(a, b, k). (if a = old then new else a, if b = old then new else b, k)"
  let ?K = "fst ` set (g_edges h)"
  have r: "relabel_one m h old =
      Inr (?g2\<lparr>g_edges := fold (\<lambda>e es. add_edge_data es e) (moved_edges ?g1 old new) (g_edges ?g2)\<rparr>)"
    using assms(1,2) d by (simp add: relabel_one_def Let_def)
  have n: "set (nodes ?g2) = insert new (set (nodes h)) - {old}"
    by (simp add: nodes_remove_node nodes_add_node_attrs)
  have stay: "?sub ` {x \<in> ?K. fst x \<noteq> old \<and> fst (snd x) \<noteq> old} = {x \<in> ?K. fst x \<noteq> old \<and> fst (snd x) \<noteq> old}"
    by (force simp: image_iff)
  have split: "?K = {x \<in> ?K. fst x \<noteq> old \<and> fst (snd x) \<noteq> old} \<union> {x \<in> ?K. fst x = old \<or> fst (snd x) = old}"
    by blast
  have "fst ` set (fold (\<lambda>e es. add_edge_data es e) (moved_edges ?g1 old new) (g_edges ?g2)) =
        {x \<in> ?K. fst x \<noteq> old \<and> fst (snd x) \<noteq> old} \<union> ?sub ` {x \<in> ?K. fst x = old \<or> fst (snd x) = old}"
    by (simp only: keys_fold_add_edge_data keys_remove_node keys_moved_edges edges_add_node_attrs)
  also have "\<dots> = ?sub ` ?K"
    by (subst split) (simp only: image_Un stay)
  finally show ?thesis using r n by (simp add: nodes_def)
qed

subsection \<open>The whole relabelling\<close>

definition hmove :: "(node \<Rightarrow> node) \<Rightarrow> node set \<Rightarrow> node \<Rightarrow> node" where
  "hmove f P x = (if x \<in> P then f x else x)"

definition relabel_inv :: "bel_graph \<Rightarrow> (node \<Rightarrow> node) \<Rightarrow> node set \<Rightarrow> bel_graph \<Rightarrow> bool" where
  "relabel_inv g0 f P h \<longleftrightarrow>
     set (nodes h) = (set (nodes g0) - P) \<union> f ` P \<and>
     fst ` set (g_edges h) = (\<lambda>(u, v, k). (hmove f P u, hmove f P v, k)) ` fst ` set (g_edges g0)"

definition moving :: "bel_graph \<Rightarrow> (node \<Rightarrow> node) \<Rightarrow> node set" where
  "moving g f = {n \<in> set (nodes g). f n \<noteq> n}"

lemma relabel_one_still:
  "map_of m old = None \<or> map_of m old = Some old \<Longrightarrow> relabel_one m h old = Inr h"
  by (auto simp: relabel_one_def)

lemma wf_edge_ends:
  "wf_graph g \<Longrightarrow> (u, v, k) \<in> fst ` set (g_edges g) \<Longrightarrow> u \<in> set (nodes g) \<and> v \<in> set (nodes g)"
  by (force simp: wf_graph_def)

lemma moving_not_image:
  assumes idem: "\<forall>n \<in> set (nodes g). f (f n) = f n" and "P \<subseteq> moving g f" and "old \<in> moving g f"
  shows "old \<notin> f ` P"
proof
  assume "old \<in> f ` P"
  then obtain p where p: "p \<in> P" "old = f p" by blast
  with assms(2) have "p \<in> set (nodes g)" by (auto simp: moving_def)
  with idem p have "f old = old" by simp
  with assms(3) show False by (simp add: moving_def)
qed

lemma relabel_inv_step:
  assumes wf: "wf_graph g0" and idem: "\<forall>n \<in> set (nodes g0). f (f n) = f n"
    and inv: "relabel_inv g0 f P h" and P: "P \<subseteq> moving g0 f"
    and old: "old \<in> moving g0 f" "old \<notin> P"
  shows "\<exists>h'. relabel_one (relabel_dict g0 f) h old = Inr h' \<and> relabel_inv g0 f (insert old P) h'"
proof -
  from old have o: "old \<in> set (nodes g0)" "f old \<noteq> old" by (auto simp: moving_def)
  have m: "map_of (relabel_dict g0 f) old = Some (f old)" using o by (simp add: map_of_relabel_dict)
  have "old \<in> set (nodes h)" using inv o old(2) by (simp add: relabel_inv_def)
  from relabel_one_moves [OF m o(2) this] obtain h' where
    r: "relabel_one (relabel_dict g0 f) h old = Inr h'"
    and n: "set (nodes h') = insert (f old) (set (nodes h)) - {old}"
    and k: "fst ` set (g_edges h') =
      (\<lambda>(a, b, k). (if a = old then f old else a, if b = old then f old else b, k)) ` fst ` set (g_edges h)"
    by blast
  have notimg: "old \<notin> f ` P" using moving_not_image [OF idem P old(1)] .
  have nodes': "set (nodes h') = (set (nodes g0) - insert old P) \<union> f ` insert old P"
    using n inv notimg o(2) by (auto simp: relabel_inv_def)
  have step: "(if hmove f P x = old then f old else hmove f P x) = hmove f (insert old P) x"
    if "x \<in> set (nodes g0)" for x
    using notimg old(2) by (auto simp: hmove_def)
  let ?sub = "\<lambda>(a, b, k). (if a = old then f old else a, if b = old then f old else b, k)"
  let ?HP = "\<lambda>(u, v, k). (hmove f P u, hmove f P v, k)"
  let ?HP' = "\<lambda>(u, v, k). (hmove f (insert old P) u, hmove f (insert old P) v, k)"
  have pt: "?sub (?HP x) = ?HP' x" if "x \<in> fst ` set (g_edges g0)" for x
  proof -
    obtain u v k where x: "x = (u, v, k)" by (cases x)
    with that wf_edge_ends [OF wf] have "u \<in> set (nodes g0)" "v \<in> set (nodes g0)" by auto
    with x show ?thesis by (simp add: step)
  qed
  have "fst ` set (g_edges h') = ?sub ` ?HP ` fst ` set (g_edges g0)"
    using k inv by (simp add: relabel_inv_def)
  also have "\<dots> = ?HP' ` fst ` set (g_edges g0)"
    unfolding image_comp by (rule image_cong) (simp_all add: pt)
  finally show ?thesis using nodes' r by (simp add: relabel_inv_def)
qed

lemma relabel_loop_inv:
  assumes wf: "wf_graph g0" and idem: "\<forall>n \<in> set (nodes g0). f (f n) = f n"
  shows "relabel_inv g0 f P h \<Longrightarrow> P \<subseteq> moving g0 f \<Longrightarrow> distinct olds \<Longrightarrow> set olds \<inter> P = {} \<Longrightarrow>
    \<exists>h'. relabel_loop (relabel_dict g0 f) h olds = Inr h' \<and>
         relabel_inv g0 f (P \<union> (set olds \<inter> moving g0 f)) h'"
proof (induction olds arbitrary: P h)
  case Nil
  then show ?case by simp
next
  case (Cons old olds)
  show ?case
  proof (cases "old \<in> moving g0 f")
    case True
    from relabel_inv_step [OF wf idem Cons.prems(1,2) True] Cons.prems(4)
    obtain h1 where h1: "relabel_one (relabel_dict g0 f) h old = Inr h1"
      "relabel_inv g0 f (insert old P) h1" by auto
    have "insert old P \<subseteq> moving g0 f" using Cons.prems(2) True by simp
    moreover have "set olds \<inter> insert old P = {}" using Cons.prems(3,4) by auto
    ultimately obtain h' where "relabel_loop (relabel_dict g0 f) h1 olds = Inr h'"
      "relabel_inv g0 f (insert old P \<union> (set olds \<inter> moving g0 f)) h'"
      using Cons.IH [OF h1(2)] Cons.prems(3) by auto
    with h1(1) True show ?thesis by (auto simp: insert_absorb)
  next
    case False
    then have "map_of (relabel_dict g0 f) old = None \<or> map_of (relabel_dict g0 f) old = Some old"
      by (auto simp: map_of_relabel_dict moving_def)
    then have r: "relabel_one (relabel_dict g0 f) h old = Inr h" by (rule relabel_one_still)
    from Cons.IH [OF Cons.prems(1,2)] Cons.prems(3,4) obtain h' where
      "relabel_loop (relabel_dict g0 f) h olds = Inr h'"
      "relabel_inv g0 f (P \<union> (set olds \<inter> moving g0 f)) h'" by auto
    with r False show ?thesis by auto
  qed
qed

text \<open>The whole relabelling, for an idempotent relabelling function.\<close>

lemma relabel_nodes_ok:
  assumes wf: "wf_graph g" and idem: "\<forall>n \<in> set (nodes g). f (f n) = f n"
  shows "\<exists>g'. relabel_nodes g f = Inr g' \<and> set (nodes g') = f ` set (nodes g) \<and>
     fst ` set (g_edges g') = (\<lambda>(u, v, k). (f u, f v, k)) ` fst ` set (g_edges g)"
proof -
  let ?m = "relabel_dict g f"
  have inv0: "relabel_inv g f {} g"
    by (simp add: relabel_inv_def hmove_def)
  have run: "\<exists>olds. (relabel_inplace g ?m = relabel_loop ?m g olds) \<and> distinct olds \<and>
      set (nodes g) \<subseteq> set olds"
  proof (cases "list_ex (\<lambda>x. x \<in> set (map snd ?m)) (map fst ?m)")
    case True
    from topological_sort_rev_ok [OF idem] obtain order where
      "topological_sort_rev ?m = Inr order" "distinct order" "set (nodes g) \<subseteq> set order" by blast
    with True show ?thesis by (auto simp: relabel_inplace_def)
  next
    case False
    have "map fst ?m = nodes g" by (simp add: relabel_dict_def comp_def)
    with False wf show ?thesis by (auto simp: relabel_inplace_def wf_graph_def)
  qed
  then obtain olds where olds: "relabel_inplace g ?m = relabel_loop ?m g olds" "distinct olds"
    "set (nodes g) \<subseteq> set olds" by blast
  from relabel_loop_inv [OF wf idem inv0 _ olds(2)] obtain g' where
    g': "relabel_loop ?m g olds = Inr g'" "relabel_inv g f (set olds \<inter> moving g f) g'" by auto
  have M: "set olds \<inter> moving g f = moving g f" using olds(3) by (auto simp: moving_def)
  have hm: "hmove f (moving g f) x = f x" if "x \<in> set (nodes g)" for x
    using that by (auto simp: hmove_def moving_def)
  have "set (nodes g') = f ` set (nodes g)"
    using g'(2) unfolding M relabel_inv_def by (force simp: moving_def)
  moreover have "fst ` set (g_edges g') = (\<lambda>(u, v, k). (f u, f v, k)) ` fst ` set (g_edges g)"
  proof -
    have "fst ` set (g_edges g') = (\<lambda>(u, v, k). (hmove f (moving g f) u, hmove f (moving g f) v, k)) `
            fst ` set (g_edges g)"
      using g'(2) unfolding M relabel_inv_def by simp
    also have "\<dots> = (\<lambda>(u, v, k). (f u, f v, k)) ` fst ` set (g_edges g)"
    proof (rule image_cong)
      fix x
      assume x: "x \<in> fst ` set (g_edges g)"
      obtain u v k where uvk: "x = (u, v, k)" by (cases x)
      with x wf_edge_ends [OF wf] have "u \<in> set (nodes g)" "v \<in> set (nodes g)" by auto
      with uvk show "(\<lambda>(u, v, k). (hmove f (moving g f) u, hmove f (moving g f) v, k)) x =
          (\<lambda>(u, v, k). (f u, f v, k)) x" by (simp add: hm)
    qed simp
    finally show ?thesis .
  qed
  ultimately show ?thesis using olds(1) g'(1) by (simp add: relabel_nodes_def)
qed

subsection \<open>Relabelling keeps a property of all attribute dictionaries\<close>

text \<open>
  A property of attribute dictionaries that survives \<^verbatim>\<open>dict.update\<close> with further
  attributes (having a \<^verbatim>\<open>type\<close>, say) holds of every node after the relabelling if it
  held of every node before: \<^verbatim>\<open>add_node\<close> merges the old node's dictionary into the
  new one, and nothing else touches node data.
\<close>

definition attrs_all :: "(attrs \<Rightarrow> bool) \<Rightarrow> bel_graph \<Rightarrow> bool" where
  "attrs_all P g \<longleftrightarrow> (\<forall>nd \<in> set (g_node g). P (snd nd))"

lemma set_update_subset: "set (AList.update k v xs) \<subseteq> insert (k, v) (set xs)"
  by (induction xs) auto

lemma attrs_all_add_node_attrs:
  assumes "attrs_all P g" and "P d" and merge: "\<And>d0 d. P d \<Longrightarrow> P (d0 ++ d)"
  shows "attrs_all P (add_node_attrs g n d)"
proof (cases "map_of (g_node g) n")
  case None
  with assms(1,2) show ?thesis by (auto simp: attrs_all_def add_node_attrs_def)
next
  case (Some d0)
  have "P (d0 ++ d)" using merge [OF assms(2)] .
  with Some assms(1) set_update_subset [of n "d0 ++ d" "g_node g"] show ?thesis
    by (auto simp: attrs_all_def add_node_attrs_def)
qed

lemma attrs_all_relabel_one:
  assumes "relabel_one m g old = Inr g'" and "attrs_all P g" and merge: "\<And>d0 d. P d \<Longrightarrow> P (d0 ++ d)"
  shows "attrs_all P g'"
proof (cases "map_of m old = None \<or> map_of m old = Some old")
  case True
  with assms(1,2) show ?thesis by (auto simp: relabel_one_def)
next
  case False
  then obtain new d where new: "map_of m old = Some new" "new \<noteq> old"
    and d: "map_of (g_node g) old = Some d"
    using assms(1) by (auto simp: relabel_one_def split: option.splits if_splits)
  from map_of_SomeD [OF d] assms(2) have "P d" by (force simp: attrs_all_def)
  then have "attrs_all P (add_node_attrs g new d)"
    using assms(2) merge by (intro attrs_all_add_node_attrs)
  then show ?thesis using assms(1) new d
    by (auto simp: relabel_one_def remove_node_def attrs_all_def Let_def)
qed

lemma attrs_all_relabel_loop:
  "relabel_loop m g olds = Inr g' \<Longrightarrow> attrs_all P g \<Longrightarrow> (\<And>d0 d. P d \<Longrightarrow> P (d0 ++ d)) \<Longrightarrow>
   attrs_all P g'"
proof (induction olds arbitrary: g)
  case Nil
  then show ?case by simp
next
  case (Cons old olds)
  then obtain g1 where "relabel_one m g old = Inr g1" "relabel_loop m g1 olds = Inr g'"
    by (auto split: sum.splits)
  with Cons attrs_all_relabel_one show ?case by blast
qed

lemma attrs_all_relabel_nodes:
  assumes "relabel_nodes g f = Inr g'" and "attrs_all P g" and "\<And>d0 d. P d \<Longrightarrow> P (d0 ++ d)"
  shows "attrs_all P g'"
  using assms attrs_all_relabel_loop [of "relabel_dict g f" g _ g' P]
  by (auto simp: relabel_nodes_def relabel_inplace_def split: if_splits sum.splits)

lemma typed_merge: "d x \<noteq> None \<Longrightarrow> (d0 ++ d) x \<noteq> None"
  by (simp add: map_add_None)

lemma merged_attrs_typed: "d x \<noteq> None \<Longrightarrow> merged_attrs H m n d x \<noteq> None"
  by (auto simp: merged_attrs_def map_add_def split: option.splits)

text \<open>
  C16. For a relabelling function that is idempotent on the nodes (as the canonical
  mapping is), \<^verbatim>\<open>relabel_nodes(g, f, copy=False)\<close> raises nothing, its nodes are
  the image of the old nodes under \<open>f\<close>, and its edge slots are the images of the old
  slots, endpoints renamed and keys kept.
\<close>

theorem relabel_nodes_image:
  assumes wf: "wf_graph g" and idem: "\<forall>n \<in> set (nodes g). f (f n) = f n"
  shows "\<exists>g'. relabel_nodes g f = Inr g' \<and> set (nodes g') = f ` set (nodes g) \<and>
     fst ` set (g_edges g') = (\<lambda>(u, v, k). (f u, f v, k)) ` fst ` set (g_edges g)"
  using wf idem by (rule relabel_nodes_ok)

subsection \<open>Examples\<close>

subsection \<open>Relabelling keeps the graph well-formed\<close>

lemma wf_graph_keys:
  "wf_graph g \<longleftrightarrow> distinct (nodes g) \<and> distinct (map fst (g_edges g)) \<and>
     (\<forall>(u, v, k) \<in> fst ` set (g_edges g). u \<in> set (nodes g) \<and> v \<in> set (nodes g))"
  by (force simp: wf_graph_def)

lemma distinct_nodes_add_node_attrs:
  "distinct (nodes g) \<Longrightarrow> distinct (nodes (add_node_attrs g n d))"
  by (auto simp: add_node_attrs_def nodes_def distinct_update map_of_eq_None_iff split: option.splits)

lemma distinct_fold_add_edge_data:
  "distinct (map fst es) \<Longrightarrow> distinct (map fst (fold (\<lambda>e es. add_edge_data es e) xs es))"
proof (induction xs arbitrary: es)
  case Nil
  then show ?case by simp
next
  case (Cons x xs)
  obtain key d where x: "x = (key, d)" by (cases x)
  from Cons.prems have "distinct (map fst (add_edge_data es x))"
    by (simp add: x add_edge_data_def distinct_update)
  with Cons.IH show ?case by simp
qed

lemma wf_relabel_one:
  assumes r: "relabel_one m g old = Inr g'" and wf: "wf_graph g"
  shows "wf_graph g'"
proof (cases "map_of m old = None \<or> map_of m old = Some old")
  case True
  with r wf show ?thesis by (auto simp: relabel_one_def)
next
  case False
  then obtain new d where new: "map_of m old = Some new" "new \<noteq> old"
    and d: "map_of (g_node g) old = Some d"
    using r by (auto simp: relabel_one_def split: option.splits if_splits)
  let ?g1 = "add_node_attrs g new d"
  let ?g2 = "remove_node ?g1 old"
  let ?es = "moved_edges ?g1 old new"
  have g': "g' = ?g2\<lparr>g_edges := fold (\<lambda>e es. add_edge_data es e) ?es (g_edges ?g2)\<rparr>"
    using r new d by (simp add: relabel_one_def Let_def)
  have n1: "set (nodes ?g1) = insert new (set (nodes g))" by (rule nodes_add_node_attrs)
  have n2: "set (nodes ?g2) = insert new (set (nodes g)) - {old}"
    using n1 by (simp add: nodes_remove_node)
  have nodes': "nodes g' = nodes ?g2" by (simp add: g' nodes_def)
  have "distinct (nodes ?g1)" using distinct_nodes_add_node_attrs [of g new d] wf
    by (simp add: wf_graph_def)
  then have "distinct (nodes ?g2)" by (simp add: remove_node_def nodes_def distinct_map_filter)
  then have dn: "distinct (nodes g')" by (simp only: nodes')
  have dk2: "distinct (map fst (g_edges ?g2))"
    using wf by (simp add: wf_graph_def remove_node_def distinct_map_filter)
  have dk: "distinct (map fst (g_edges g'))"
    using distinct_fold_add_edge_data [OF dk2] by (simp add: g')
  have ends_g: "u \<in> set (nodes g) \<and> v \<in> set (nodes g)" if "(u, v, k) \<in> fst ` set (g_edges g)" for u v k
    using wf that by (auto simp: wf_graph_keys)
  have keys': "fst ` set (g_edges g') =
      {x \<in> fst ` set (g_edges g). fst x \<noteq> old \<and> fst (snd x) \<noteq> old} \<union>
      (\<lambda>(a, b, k). (if a = old then new else a, if b = old then new else b, k)) `
        {x \<in> fst ` set (g_edges g). fst x = old \<or> fst (snd x) = old}"
    by (simp add: g' keys_fold_add_edge_data keys_remove_node keys_moved_edges)
  have ends: "u \<in> set (nodes g') \<and> v \<in> set (nodes g')" if h: "(u, v, k) \<in> fst ` set (g_edges g')" for u v k
  proof -
    from h obtain a b where ab: "(a, b, k) \<in> fst ` set (g_edges g)"
      "u = (if a = old then new else a)" "v = (if b = old then new else b)"
      unfolding keys' by force
    with ends_g [OF ab(1)] new(2) show ?thesis unfolding nodes' n2 by auto
  qed
  have "\<forall>(u, v, k) \<in> fst ` set (g_edges g'). u \<in> set (nodes g') \<and> v \<in> set (nodes g')"
    using ends by blast
  with dn dk show ?thesis unfolding wf_graph_keys by blast
qed

lemma wf_relabel_loop:
  "relabel_loop m g olds = Inr g' \<Longrightarrow> wf_graph g \<Longrightarrow> wf_graph g'"
proof (induction olds arbitrary: g)
  case Nil
  then show ?case by simp
next
  case (Cons old olds)
  then obtain g1 where "relabel_one m g old = Inr g1" "relabel_loop m g1 olds = Inr g'"
    by (auto split: sum.splits)
  with Cons wf_relabel_one show ?case by blast
qed

text \<open>
  C25. Whatever the relabelling function, a successful \<^verbatim>\<open>relabel_nodes(g, f, copy=False)\<close>
  leaves a graph networkx considers well-formed: each node once, each edge slot once,
  and every edge between two nodes of the graph.
\<close>

theorem relabel_nodes_wf:
  assumes "relabel_nodes g f = Inr g'" and "wf_graph g"
  shows "wf_graph g'"
  using assms wf_relabel_loop [of "relabel_dict g f" g _ g']
  by (auto simp: relabel_nodes_def relabel_inplace_def split: if_splits sum.splits)

text \<open>
  C17. Relabelling loses keyed edges on a collision: when two nodes that both have an edge
  with the same key to the same target are relabelled to one node, \<^verbatim>\<open>add_edges_from\<close>
  writes both re-pointed edges into one slot, so the relabelled graph has fewer edges than
  the corpus and one statement's data is gone.
\<close>

theorem relabel_collision_loses_edge:
  assumes r: "relabel_nodes g f = Inr g'" and wf: "wf_graph g"
    and e1: "(u1, v, k) \<in> fst ` set (g_edges g)" and e2: "(u2, v, k) \<in> fst ` set (g_edges g)"
    and ne: "u1 \<noteq> u2" and same: "f u1 = f u2"
    and idem: "\<forall>n \<in> set (nodes g). f (f n) = f n"
  shows "length (g_edges g') < length (g_edges g)"
proof -
  let ?S = "fst ` set (g_edges g)" and ?F = "\<lambda>(u, v, k). (f u, f v, k)"
  from relabel_nodes_ok [OF wf idem] r have slots: "fst ` set (g_edges g') = ?F ` ?S" by auto
  have wf': "wf_graph g'"
    using r wf wf_relabel_loop [of "relabel_dict g f" g _ g']
    by (auto simp: relabel_nodes_def relabel_inplace_def split: if_splits sum.splits)
  have len: "length (g_edges h) = card (fst ` set (g_edges h))" if "wf_graph h" for h
    using that distinct_card [of "map fst (g_edges h)"] by (simp add: wf_graph_def)
  have "\<not> inj_on ?F ?S"
    using e1 e2 ne same unfolding inj_on_def by (metis (mono_tags, lifting) old.prod.inject case_prod_conv)
  then have "card (?F ` ?S) \<noteq> card ?S" using inj_on_iff_eq_card [of ?S ?F] by simp
  then have "card (?F ` ?S) < card ?S" using card_image_le [of ?S ?F] by simp
  with len [OF wf'] len [OF wf] slots show ?thesis by simp
qed

abbreviation hA :: node where "hA \<equiv> [''Gene'', ''HGNC'', ''A'']"
abbreviation rA :: node where "rA \<equiv> [''Gene'', ''RGD'', ''A'']"
abbreviation mA :: node where "mA \<equiv> [''Gene'', ''MGI'', ''A'']"
abbreviation xX :: node where "xX \<equiv> [''Protein'', ''HGNC'', ''X'']"

definition collide :: bel_graph where
  "collide = \<lparr>g_node = [(hA, [''type'' \<mapsto> ''Gene'']), (rA, [''type'' \<mapsto> ''Gene'']), (xX, [''type'' \<mapsto> ''Protein''])],
     g_edges = [((hA, xX, 0), [''relation'' \<mapsto> ''increases'']), ((rA, xX, 0), [''relation'' \<mapsto> ''decreases''])]\<rparr>"

theorem relabel_nodes_image_witness:
  "\<exists>g'. relabel_nodes collide (relabel_fn [hA \<mapsto> mA, rA \<mapsto> mA]) = Inr g' \<and>
     set (nodes g') = {mA, xX}"
proof -
  have wf: "wf_graph collide" by (simp add: collide_def wf_graph_def nodes_def)
  have ns: "set (nodes collide) = {hA, rA, xX}" by (simp add: collide_def nodes_def)
  have img: "relabel_fn [hA \<mapsto> mA, rA \<mapsto> mA] ` {hA, rA, xX} = {mA, xX}"
    by (simp add: relabel_fn_def)
  have idem: "\<forall>n \<in> set (nodes collide). relabel_fn [hA \<mapsto> mA, rA \<mapsto> mA] (relabel_fn [hA \<mapsto> mA, rA \<mapsto> mA] n) =
      relabel_fn [hA \<mapsto> mA, rA \<mapsto> mA] n"
    unfolding ns by (simp add: relabel_fn_def)
  from relabel_nodes_image [OF wf idem] obtain g' where
    "relabel_nodes collide (relabel_fn [hA \<mapsto> mA, rA \<mapsto> mA]) = Inr g'" and
    "set (nodes g') = relabel_fn [hA \<mapsto> mA, rA \<mapsto> mA] ` set (nodes collide)"
    by blast
  then show ?thesis unfolding ns img by blast
qed

definition ortho_a :: ugraph where
  "ortho_a = \<lparr>u_node = [(mA, (Map.empty(''type'' \<mapsto> ''Gene''))(''name'' \<mapsto> ''A''))], u_edges = []\<rparr>"

theorem map_node_data_eq_witness:
  "\<exists>g'. map_node_data ortho_a [hA \<mapsto> mA] collide = Inr g' \<and> nodes g' = nodes collide \<and>
     map_of (g_node g') hA = Some ((Map.empty(''type'' \<mapsto> ''Gene''))(''name'' \<mapsto> ''A''))"
  using map_node_data_eq [of ortho_a "[hA \<mapsto> mA]" collide]
  by (simp add: collide_def ortho_a_def merge_ok_def merged_attrs_def allowed_types_def unodes_def
      nodes_def)

theorem relabel_nodes_wf_witness:
  "\<exists>g'. relabel_nodes collide (relabel_fn [hA \<mapsto> mA, rA \<mapsto> mA]) = Inr g' \<and>
     wf_graph collide \<and> wf_graph g'"
proof -
  have "case relabel_nodes collide (relabel_fn [hA \<mapsto> mA, rA \<mapsto> mA]) of Inl e \<Rightarrow> False | Inr g' \<Rightarrow> True"
    by (simp add: collide_def model_eval)
  then obtain g' where r: "relabel_nodes collide (relabel_fn [hA \<mapsto> mA, rA \<mapsto> mA]) = Inr g'"
    by (auto split: sum.splits)
  have w: "wf_graph collide" by (simp add: collide_def wf_graph_def nodes_def)
  from relabel_nodes_wf [OF r w] r w show ?thesis by blast
qed

theorem topological_sort_rev_order_witness:
  "topological_sort_rev [(hA, rA), (rA, mA)] = Inr [mA, rA, hA] \<and>
   dsucc [(hA, rA), (rA, mA)] ([mA, rA, hA] ! 2) = Some rA \<and> (\<exists>j < 2. [mA, rA, hA] ! j = rA)"
proof -
  have t: "topological_sort_rev [(hA, rA), (rA, mA)] = Inr [mA, rA, hA]"
    by (simp add: model_eval)
  have d: "dsucc [(hA, rA), (rA, mA)] ([mA, rA, hA] ! 2) = Some rA" by (simp add: dsucc_def)
  from topological_sort_rev_order [OF t _ d] t d show ?thesis by simp
qed

theorem relabel_collision_loses_edge_witness:
  "wf_graph collide \<and> (hA, xX, 0) \<in> fst ` set (g_edges collide) \<and> (rA, xX, 0) \<in> fst ` set (g_edges collide) \<and>
   relabel_fn [hA \<mapsto> mA, rA \<mapsto> mA] hA = relabel_fn [hA \<mapsto> mA, rA \<mapsto> mA] rA \<and>
   relabel_nodes collide (relabel_fn [hA \<mapsto> mA, rA \<mapsto> mA]) =
     Inr \<lparr>g_node = [(xX, [''type'' \<mapsto> ''Protein'']), (mA, [''type'' \<mapsto> ''Gene''])],
          g_edges = [((mA, xX, 0), [''relation'' \<mapsto> ''decreases''])]\<rparr> \<and>
   length (g_edges \<lparr>g_node = [(xX, [''type'' \<mapsto> ''Protein'']), (mA, [''type'' \<mapsto> ''Gene''])],
          g_edges = [((mA, xX, 0), [''relation'' \<mapsto> ''decreases''])]\<rparr>) < length (g_edges collide)"
proof -
  let ?f = "relabel_fn [hA \<mapsto> mA, rA \<mapsto> mA]"
  have r: "relabel_nodes collide ?f =
     Inr \<lparr>g_node = [(xX, [''type'' \<mapsto> ''Protein'']), (mA, [''type'' \<mapsto> ''Gene''])],
          g_edges = [((mA, xX, 0), [''relation'' \<mapsto> ''decreases''])]\<rparr>"
    by (simp add: collide_def model_eval)
  have wf: "wf_graph collide" by (simp add: collide_def wf_graph_def nodes_def)
  have e: "(hA, xX, 0) \<in> fst ` set (g_edges collide)" "(rA, xX, 0) \<in> fst ` set (g_edges collide)"
    by (simp_all add: collide_def)
  have same: "?f hA = ?f rA" by (simp add: relabel_fn_def)
  have idem: "\<forall>n \<in> set (nodes collide). ?f (?f n) = ?f n"
    by (simp add: collide_def nodes_def relabel_fn_def)
  from relabel_collision_loses_edge [OF r wf e(1) e(2) _ same idem] r wf e same show ?thesis by simp
qed

end
