(* ===== verification/Counters.thy ===== *)
theory Counters
  imports Graphs "HOL-Library.Multiset"
begin

text \<open>
  The namespace frequencies of cells 15 and 19:
  \<^verbatim>\<open>Counter(node[1] for node in g.nodes_iter() if g.node[node]['type'] == 'Gene')\<close>.
  The generator is evaluated lazily by \<^verbatim>\<open>Counter\<close>'s \<^verbatim>\<open>_count_elements\<close> loop,
  so the first node (in node order) without a \<^verbatim>\<open>type\<close> raises \<^verbatim>\<open>KeyError\<close>
  and the first Gene node shorter than two raises \<^verbatim>\<open>IndexError\<close>. The counter is
  the dictionary it is in CPython, an association list in insertion order updated by
  \<^verbatim>\<open>self[elem] = self.get(elem, 0) + 1\<close>; \<open>counter_mset\<close> abstracts it to the
  multiset of counted namespaces, and the lemmas show that the loop implements the
  multiset of the Gene nodes' namespaces, with keys in first-seen order.
\<close>

type_synonym counter = "(string \<times> nat) list"

definition counter_get :: "counter \<Rightarrow> string \<Rightarrow> nat" where
  "counter_get c x = (case map_of c x of None \<Rightarrow> 0 | Some n \<Rightarrow> n)"

definition counter_add :: "counter \<Rightarrow> string \<Rightarrow> counter" where
  "counter_add c x = AList.update x (counter_get c x + 1) c"

text \<open>One step of the generator: the namespace of a Gene node, nothing for another node.\<close>

definition gene_ns :: "node \<times> attrs \<Rightarrow> py_error + string option" where
  "gene_ns nd = (case nd of (n, d) \<Rightarrow>
     (case d ''type'' of
        None \<Rightarrow> Inl KeyError
      | Some t \<Rightarrow> (if t = ''Gene'' then
          (case n of _ # ns # _ \<Rightarrow> Inr (Some ns) | _ \<Rightarrow> Inl IndexError) else Inr None)))"

fun count_elements :: "counter \<Rightarrow> (node \<times> attrs) list \<Rightarrow> py_error + counter" where
  "count_elements c [] = Inr c"
| "count_elements c (nd # nds) =
     (case gene_ns nd of
        Inl e \<Rightarrow> Inl e
      | Inr None \<Rightarrow> count_elements c nds
      | Inr (Some x) \<Rightarrow> count_elements (counter_add c x) nds)"

definition namespace_counter :: "bel_graph \<Rightarrow> py_error + counter" where
  "namespace_counter g = count_elements [] (g_node g)"

text \<open>The abstract counter: each key repeated as often as its count says.\<close>

definition counter_mset :: "counter \<Rightarrow> string multiset" where
  "counter_mset c = sum_list (map (\<lambda>(x, n). replicate_mset n x) c)"

text \<open>The specification: the namespaces of the Gene nodes, in node order.\<close>

definition gene_namespaces :: "(node \<times> attrs) list \<Rightarrow> string list" where
  "gene_namespaces nds = map (\<lambda>(n, d). n ! 1) (filter (\<lambda>(n, d). d ''type'' = Some ''Gene'') nds)"

text \<open>The nodes on which the generator raises: no \<^verbatim>\<open>type\<close>, or a Gene node too short for \<^verbatim>\<open>node[1]\<close>.\<close>

definition count_error :: "node \<times> attrs \<Rightarrow> bool" where
  "count_error nd \<longleftrightarrow> (case nd of (n, d) \<Rightarrow>
     d ''type'' = None \<or> (d ''type'' = Some ''Gene'' \<and> length n < 2))"

declare counter_get_def [model_eval] counter_add_def [model_eval] gene_ns_def [model_eval]
  namespace_counter_def [model_eval] counter_mset_def [model_eval]

subsection \<open>The dictionary refines the multiset\<close>

lemma counter_mset_Cons [simp]: "counter_mset ((x, n) # c) = replicate_mset n x + counter_mset c"
  by (simp add: counter_mset_def)

lemma counter_mset_Nil [simp]: "counter_mset [] = {#}"
  by (simp add: counter_mset_def)

lemma counter_get_Cons [simp]: "counter_get ((y, n) # c) x = (if y = x then n else counter_get c x)"
  by (simp add: counter_get_def)

lemma counter_get_update: "counter_get (AList.update x n c) y = (if y = x then n else counter_get c y)"
  by (simp add: counter_get_def update_conv')

lemma count_counter_mset:
  "distinct (map fst c) \<Longrightarrow> count (counter_mset c) x = counter_get c x"
proof (induction c)
  case Nil
  then show ?case by (simp add: counter_mset_def counter_get_def)
next
  case (Cons p c)
  obtain y m where p: "p = (y, m)" by (cases p)
  have "y = x \<Longrightarrow> counter_get c x = 0"
    using Cons.prems p by (simp add: counter_get_def map_of_eq_None_iff [symmetric])
  with Cons p show ?case by auto
qed

lemma distinct_counter_add: "distinct (map fst c) \<Longrightarrow> distinct (map fst (counter_add c x))"
  by (simp add: counter_add_def distinct_update)

lemma counter_add_mset:
  assumes "distinct (map fst c)"
  shows "counter_mset (counter_add c x) = add_mset x (counter_mset c)"
proof (rule multiset_eqI)
  fix y
  have "count (counter_mset (counter_add c x)) y = counter_get (counter_add c x) y"
    by (rule count_counter_mset [OF distinct_counter_add [OF assms]])
  also have "\<dots> = count (add_mset x (counter_mset c)) y"
    using count_counter_mset [OF assms] by (simp add: counter_add_def counter_get_update)
  finally show "count (counter_mset (counter_add c x)) y = count (add_mset x (counter_mset c)) y" .
qed

lemma keys_update:
  "map fst (AList.update x v c) = (if x \<in> set (map fst c) then map fst c else map fst c @ [x])"
  by (induction c) auto

lemma keys_counter_add:
  "map fst (counter_add c x) = (if x \<in> set (map fst c) then map fst c else map fst c @ [x])"
  by (simp add: counter_add_def keys_update)

lemma first_occ_snoc_keys:
  assumes "distinct ks"
  shows "first_occ ((if x \<in> set ks then ks else ks @ [x]) @ xs) = first_occ (ks @ x # xs)"
proof (cases "x \<in> set ks")
  case True
  with assms show ?thesis by (simp add: first_occ_append first_occ_id)
next
  case False
  have "removeAll x (first_occ (filter (\<lambda>y. y \<notin> set ks) xs)) =
      first_occ (filter (\<lambda>y. y \<notin> set (ks @ [x])) xs)"
    by (simp only: removeAll_first_occ)
      (auto simp: removeAll_filter_not_eq filter_filter intro!: arg_cong [where f = first_occ] filter_cong)
  with False assms show ?thesis
    by (simp add: first_occ_append first_occ_id del: set_append)
qed

abbreviation count_all :: "string list \<Rightarrow> counter \<Rightarrow> counter" where
  "count_all xs c \<equiv> fold (\<lambda>x c. counter_add c x) xs c"

lemma fold_counter_add:
  assumes "distinct (map fst c)"
  shows "distinct (map fst (count_all xs c)) \<and>
    counter_mset (count_all xs c) = counter_mset c + mset xs \<and>
    map fst (count_all xs c) = first_occ (map fst c @ xs)"
  using assms
proof (induction xs arbitrary: c)
  case Nil
  then show ?case by (simp add: first_occ_id)
next
  case (Cons x xs)
  have keys: "first_occ (map fst (counter_add c x) @ xs) = first_occ (map fst c @ x # xs)"
    using first_occ_snoc_keys [of "map fst c" x xs] Cons.prems by (simp only: keys_counter_add)
  from Cons.IH [OF distinct_counter_add [OF Cons.prems, of x]] show ?case
    by (simp add: counter_add_mset [OF Cons.prems] keys first_occ_distinct)
qed

lemma count_error_gene_ns: "count_error nd \<longleftrightarrow> isl (gene_ns nd)"
  by (auto simp: count_error_def gene_ns_def split: prod.splits option.splits list.splits)

lemma gene_ns_Inl:
  "gene_ns (n, d) = Inl e \<Longrightarrow> e = (if d ''type'' = None then KeyError else IndexError)"
  by (auto simp: gene_ns_def split: option.splits if_splits list.splits)

lemma gene_ns_None: "gene_ns (n, d) = Inr None \<Longrightarrow> d ''type'' \<noteq> Some ''Gene''"
  by (auto simp: gene_ns_def split: option.splits if_splits list.splits)

lemma gene_ns_Some: "gene_ns (n, d) = Inr (Some x) \<Longrightarrow> d ''type'' = Some ''Gene'' \<and> n ! 1 = x"
  by (auto simp: gene_ns_def split: option.splits if_splits list.splits)

text \<open>The loop of \<^verbatim>\<open>Counter.__init__\<close> on the generator, in closed form.\<close>

lemma count_elements_eq:
  "count_elements c nds =
     (case find count_error nds of
        Some nd \<Rightarrow> Inl (projl (gene_ns nd))
      | None \<Rightarrow> Inr (count_all (gene_namespaces nds) c))"
proof (induction nds arbitrary: c)
  case Nil
  then show ?case by (simp add: gene_namespaces_def)
next
  case (Cons nd nds)
  obtain n d where nd: "nd = (n, d)" by (cases nd)
  have gn: "gene_namespaces ((n, d) # nds) =
      (if d ''type'' = Some ''Gene'' then n ! 1 # gene_namespaces nds else gene_namespaces nds)"
    by (simp add: gene_namespaces_def)
  show ?case unfolding nd
    using Cons.IH gene_ns_None [of n d] gene_ns_Some [of n d]
    by (cases "gene_ns (n, d)") (auto simp: count_error_gene_ns gn split: option.splits)
qed

lemma count_elements_error:
  "count_elements c nds =
     (case find count_error nds of
        Some (n, d) \<Rightarrow> Inl (if d ''type'' = None then KeyError else IndexError)
      | None \<Rightarrow> Inr (count_all (gene_namespaces nds) c))"
proof (cases "find count_error nds")
  case (Some nd)
  obtain n d where nd: "nd = (n, d)" by (cases nd)
  from Some have "count_error nd" by (simp add: find_Some_iff) metis
  then obtain e where "gene_ns (n, d) = Inl e"
    by (auto simp: nd count_error_gene_ns isl_def)
  with Some nd gene_ns_Inl [of n d e] show ?thesis by (simp add: count_elements_eq)
qed (simp add: count_elements_eq)

subsection \<open>The counter of a graph\<close>

lemma namespace_counter_total:
  assumes "\<forall>nd \<in> set (g_node g). \<not> count_error nd"
  shows "\<exists>c. namespace_counter g = Inr c \<and> counter_mset c = mset (gene_namespaces (g_node g))"
proof -
  from assms have "find count_error (g_node g) = None" by (simp add: find_None_iff)
  then show ?thesis
    using fold_counter_add [of "[]" "gene_namespaces (g_node g)"]
    by (simp add: namespace_counter_def count_elements_error)
qed

text \<open>
  C18. \<^verbatim>\<open>Counter(node[1] for node in g.nodes_iter() if g.node[node]['type'] == 'Gene')\<close>
  raises \<^verbatim>\<open>KeyError\<close> or \<^verbatim>\<open>IndexError\<close> for the first node (in node order)
  without a type or Gene node shorter than two, and otherwise is the multiset of the
  namespaces of the Gene nodes.
\<close>

theorem namespace_counter_mset:
  "map_sum id counter_mset (namespace_counter g) =
     (case find count_error (g_node g) of
        Some (n, d) \<Rightarrow> Inl (if d ''type'' = None then KeyError else IndexError)
      | None \<Rightarrow> Inr (mset (gene_namespaces (g_node g))))"
  using fold_counter_add [of "[]" "gene_namespaces (g_node g)"]
  by (simp add: namespace_counter_def count_elements_error counter_mset_def split: option.splits)

text \<open>
  C19. When the counting succeeds, the \<^verbatim>\<open>Counter\<close> is a dictionary whose keys are
  the namespaces of the Gene nodes in the order they are first met and whose value at a
  namespace is the number of Gene nodes in it.
\<close>

theorem namespace_counter_dict:
  assumes "namespace_counter g = Inr c"
  shows "map fst c = first_occ (gene_namespaces (g_node g)) \<and>
    counter_get c x = count_list (gene_namespaces (g_node g)) x"
proof -
  from assms have c: "c = count_all (gene_namespaces (g_node g)) []"
    by (simp add: namespace_counter_def count_elements_error split: option.splits prod.splits if_splits)
  have d: "distinct (map fst c)" and m: "counter_mset c = mset (gene_namespaces (g_node g))"
    and k: "map fst c = first_occ (gene_namespaces (g_node g))"
    using fold_counter_add [of "[]" "gene_namespaces (g_node g)"] by (simp_all add: c first_occ_distinct)
  have "counter_get c x = count (mset (gene_namespaces (g_node g))) x"
    using count_counter_mset [OF d, of x] m by simp
  with k show ?thesis by (simp add: count_mset)
qed

definition counted :: bel_graph where
  "counted = \<lparr>g_node = [([''Gene'', ''HGNC'', ''A''], [''type'' \<mapsto> ''Gene'']),
     ([''Protein'', ''HGNC'', ''X''], [''type'' \<mapsto> ''Protein'']),
     ([''Gene'', ''RGD'', ''A''], [''type'' \<mapsto> ''Gene'']),
     ([''Gene'', ''HGNC'', ''B''], [''type'' \<mapsto> ''Gene''])], g_edges = []\<rparr>"

theorem namespace_counter_dict_witness:
  "namespace_counter counted = Inr [(''HGNC'', 2), (''RGD'', 1)] \<and>
   map fst [(''HGNC'', 2::nat), (''RGD'', 1)] = first_occ (gene_namespaces (g_node counted)) \<and>
   counter_get [(''HGNC'', 2), (''RGD'', 1)] ''HGNC'' = count_list (gene_namespaces (g_node counted)) ''HGNC''"
proof -
  have run: "namespace_counter counted = Inr [(''HGNC'', 2), (''RGD'', 1)]"
    by (simp add: counted_def model_eval)
  from namespace_counter_dict [OF run, of "''HGNC''"] run show ?thesis by simp
qed

end
