(* ===== verification/Notebook.thy ===== *)
theory Notebook
  imports Canonical Relabel Counters
begin

text \<open>
  The notebook as a program: the Jupyter kernel's global namespace, the pickle cache on disk
  and the graph objects, changed by one step per code cell. A name a cell reads that no
  earlier cell bound raises \<^verbatim>\<open>NameError\<close> (the model checks every name a cell reads
  on entry, also where Python would skip the read because a loop is empty). The large
  corpus \<^verbatim>\<open>g\<close> is a reference into a heap of graph objects because cells 17 and 18
  change it in place and \<^verbatim>\<open>relabel_nodes(..., copy=False)\<close> returns the very object, so
  that \<^verbatim>\<open>g_relabeled\<close> and \<^verbatim>\<open>g\<close> are one graph. The pickle files are a map from
  paths to the graphs written there (\<^verbatim>\<open>from_pickle\<close> returns a graph equal to the one
  \<^verbatim>\<open>to_pickle\<close> wrote). What the network and PyBEL's parser deliver is a parameter,
  \<open>env\<close>, as are the version string of the installed PyBEL and what the clock reads when
  cell 3 runs. The two cells that end in an expression (cells 2 and 3) display its value and
  IPython appends it to the output history \<^verbatim>\<open>Out\<close> (\<^verbatim>\<open>_\<close> is its last entry); no
  other code cell ends in an expression. A cell that raises is the error value; a run stops
  at the first error (what the kernel keeps after an exception is the subject of
  \<open>Exceptions\<close>).
\<close>

record env =
  pybel_dir :: string
  from_url :: "string \<Rightarrow> bel_graph"
  large_corpus :: bel_graph
  pybel_version :: string
  asctime :: string

record kernel =
  fs :: "string \<rightharpoonup> bel_graph"
  heap :: "nat \<rightharpoonup> bel_graph"
  next_ref :: nat
  v_gene_orthology_url :: "string option"
  v_named_complexes_url :: "string option"
  v_protein_families_url :: "string option"
  v_path :: "string option"
  v_orthology :: "bel_graph option"
  v_orthology_undirected :: "ugraph option"
  v_classes :: "classes option"
  v_mapping :: "(node \<rightharpoonup> node) option"
  v_g :: "nat option"
  v_before_counter :: "counter option"
  v_g_relabeled :: "nat option"
  v_after_counter :: "counter option"
  v_out :: "string list"

definition fresh_kernel :: "(string \<rightharpoonup> bel_graph) \<Rightarrow> kernel" where
  "fresh_kernel files = \<lparr>fs = files, heap = Map.empty, next_ref = 0,
     v_gene_orthology_url = None, v_named_complexes_url = None, v_protein_families_url = None,
     v_path = None, v_orthology = None, v_orthology_undirected = None, v_classes = None,
     v_mapping = None, v_g = None, v_before_counter = None, v_g_relabeled = None,
     v_after_counter = None, v_out = []\<rparr>"

text \<open>\<^verbatim>\<open>os.path.join(a, b)\<close> on POSIX for two components.\<close>

definition path_join :: "string \<Rightarrow> string \<Rightarrow> string" where
  "path_join a b = (if take 1 b = ''/'' then b
     else if a = [] \<or> last a = CHR ''/'' then a @ b else a @ ''/'' @ b)"

definition orthology_path :: "env \<Rightarrow> string" where
  "orthology_path E = path_join (pybel_dir E) ''gene-orthology.gpickle''"

definition corpus_path :: "env \<Rightarrow> string" where
  "corpus_path E = path_join (pybel_dir E) ''large_corpus_mgi.gpickle''"

definition deref :: "kernel \<Rightarrow> nat option \<Rightarrow> py_error + bel_graph" where
  "deref k r = (case r of None \<Rightarrow> Inl NameError
     | Some a \<Rightarrow> (case heap k a of None \<Rightarrow> Inl NameError | Some G \<Rightarrow> Inr G))"

subsection \<open>The cells\<close>

definition gene_orthology_url :: string where
  "gene_orthology_url = ''http://resources.openbel.org/belframework/20150611/resource/gene-orthology.bel''"

definition cell_version :: "env \<Rightarrow> kernel \<Rightarrow> py_error + kernel" where
  "cell_version E k = Inr (k\<lparr>v_out := v_out k @ [pybel_version E]\<rparr>)"

definition cell_asctime :: "env \<Rightarrow> kernel \<Rightarrow> py_error + kernel" where
  "cell_asctime E k = Inr (k\<lparr>v_out := v_out k @ [asctime E]\<rparr>)"

definition cell_url :: "kernel \<Rightarrow> py_error + kernel" where
  "cell_url k = Inr (k\<lparr>v_gene_orthology_url := Some gene_orthology_url\<rparr>)"

definition cell_acquire :: "env \<Rightarrow> kernel \<Rightarrow> py_error + kernel" where
  "cell_acquire E k = (let path = orthology_path E in
     case fs k path of
       None \<Rightarrow> (case v_gene_orthology_url k of
           None \<Rightarrow> Inl NameError
         | Some url \<Rightarrow> (let orthology = from_url E url in
             Inr (k\<lparr>v_path := Some path, v_orthology := Some orthology,
                    fs := (fs k)(path \<mapsto> orthology)\<rparr>)))
     | Some orthology \<Rightarrow> Inr (k\<lparr>v_path := Some path, v_orthology := Some orthology\<rparr>))"

definition cell_other_urls :: "kernel \<Rightarrow> py_error + kernel" where
  "cell_other_urls k = Inr (k\<lparr>
     v_named_complexes_url :=
       Some ''http://resources.openbel.org/belframework/20150611/resource/named-complexes.bel'',
     v_protein_families_url :=
       Some ''http://resources.openbel.org/belframework/20150611/resource/protein-families.bel''\<rparr>)"

definition cell_undirected :: "kernel \<Rightarrow> py_error + kernel" where
  "cell_undirected k = (case v_orthology k of
     None \<Rightarrow> Inl NameError
   | Some orthology \<Rightarrow> Inr (k\<lparr>v_orthology_undirected := Some (to_undirected orthology)\<rparr>))"

definition cell_classes :: "kernel \<Rightarrow> py_error + kernel" where
  "cell_classes k = (case v_orthology_undirected k of
     None \<Rightarrow> Inl NameError
   | Some H \<Rightarrow> (case build_classes (connected_components H) of
       Inl e \<Rightarrow> Inl e
     | Inr st \<Rightarrow> Inr (k\<lparr>v_classes := Some st\<rparr>)))"

definition cell_mapping :: "kernel \<Rightarrow> py_error + kernel" where
  "cell_mapping k = (case (v_orthology_undirected k, v_classes k) of
     (Some H, Some st) \<Rightarrow> (case build_mapping st (unodes H) of
        Inl e \<Rightarrow> Inl e
      | Inr mapping \<Rightarrow> Inr (k\<lparr>v_mapping := Some mapping\<rparr>))
   | _ \<Rightarrow> Inl NameError)"

definition cell_corpus :: "env \<Rightarrow> kernel \<Rightarrow> py_error + kernel" where
  "cell_corpus E k = Inr (k\<lparr>heap := (heap k)(next_ref k \<mapsto> large_corpus E),
     next_ref := Suc (next_ref k), v_g := Some (next_ref k)\<rparr>)"

definition cell_before :: "kernel \<Rightarrow> py_error + kernel" where
  "cell_before k = (case deref k (v_g k) of
     Inl e \<Rightarrow> Inl e
   | Inr G \<Rightarrow> (case namespace_counter G of
       Inl e \<Rightarrow> Inl e
     | Inr c \<Rightarrow> Inr (k\<lparr>v_before_counter := Some c\<rparr>)))"

definition cell_node_data :: "kernel \<Rightarrow> py_error + kernel" where
  "cell_node_data k = (case (v_g k, deref k (v_g k), v_orthology_undirected k, v_mapping k) of
     (Some a, Inr G, Some H, Some mapping) \<Rightarrow> (case map_node_data H mapping G of
        Inl e \<Rightarrow> Inl e
      | Inr G' \<Rightarrow> Inr (k\<lparr>heap := (heap k)(a \<mapsto> G')\<rparr>))
   | (_, Inl e, _, _) \<Rightarrow> Inl e
   | _ \<Rightarrow> Inl NameError)"

definition cell_relabel :: "kernel \<Rightarrow> py_error + kernel" where
  "cell_relabel k = (case (v_g k, deref k (v_g k), v_mapping k) of
     (Some a, Inr G, Some mapping) \<Rightarrow> (case relabel_nodes G (relabel_fn mapping) of
        Inl e \<Rightarrow> Inl e
      | Inr G' \<Rightarrow> Inr (k\<lparr>heap := (heap k)(a \<mapsto> G'), v_g_relabeled := Some a\<rparr>))
   | (_, Inl e, _) \<Rightarrow> Inl e
   | _ \<Rightarrow> Inl NameError)"

definition cell_after :: "kernel \<Rightarrow> py_error + kernel" where
  "cell_after k = (case deref k (v_g_relabeled k) of
     Inl e \<Rightarrow> Inl e
   | Inr G \<Rightarrow> (case namespace_counter G of
       Inl e \<Rightarrow> Inl e
     | Inr c \<Rightarrow> Inr (k\<lparr>v_after_counter := Some c\<rparr>)))"

definition cell_save :: "env \<Rightarrow> kernel \<Rightarrow> py_error + kernel" where
  "cell_save E k = (let path = corpus_path E in
     case deref k (v_g_relabeled k) of
       Inl e \<Rightarrow> Inl e
     | Inr G \<Rightarrow> Inr (k\<lparr>v_path := Some path, fs := (fs k)(path \<mapsto> G)\<rparr>))"

datatype cell = Version | Asctime | Url | Acquire | Other_urls | Undirected | Classes | Mapping | Corpus
  | Before_counter | Node_data | Relabel | After_counter | Save

fun run_cell :: "env \<Rightarrow> cell \<Rightarrow> kernel \<Rightarrow> py_error + kernel" where
  "run_cell E Version k = cell_version E k"
| "run_cell E Asctime k = cell_asctime E k"
| "run_cell E Url k = cell_url k"
| "run_cell E Acquire k = cell_acquire E k"
| "run_cell E Other_urls k = cell_other_urls k"
| "run_cell E Undirected k = cell_undirected k"
| "run_cell E Classes k = cell_classes k"
| "run_cell E Mapping k = cell_mapping k"
| "run_cell E Corpus k = cell_corpus E k"
| "run_cell E Before_counter k = cell_before k"
| "run_cell E Node_data k = cell_node_data k"
| "run_cell E Relabel k = cell_relabel k"
| "run_cell E After_counter k = cell_after k"
| "run_cell E Save k = cell_save E k"

fun run_cells :: "env \<Rightarrow> cell list \<Rightarrow> kernel \<Rightarrow> py_error + kernel" where
  "run_cells E [] k = Inr k"
| "run_cells E (c # cs) k = (case run_cell E c k of Inl e \<Rightarrow> Inl e | Inr k' \<Rightarrow> run_cells E cs k')"

text \<open>The code cells in the order of the notebook (execution counts 2 to 15).\<close>

definition notebook :: "cell list" where
  "notebook = [Version, Asctime, Url, Acquire, Other_urls, Undirected, Classes, Mapping, Corpus,
     Before_counter, Node_data, Relabel, After_counter, Save]"

definition run_all :: "env \<Rightarrow> (string \<rightharpoonup> bel_graph) \<Rightarrow> py_error + kernel" where
  "run_all E files = run_cells E notebook (fresh_kernel files)"

text \<open>The states a kernel reaches by running cells in any order, each to completion.\<close>

inductive reachable :: "env \<Rightarrow> kernel \<Rightarrow> kernel \<Rightarrow> bool" for E k0 where
  start: "reachable E k0 k0"
| step: "reachable E k0 k \<Longrightarrow> run_cell E c k = Inr k' \<Longrightarrow> reachable E k0 k'"

declare fresh_kernel_def [model_eval] path_join_def [model_eval] orthology_path_def [model_eval]
  corpus_path_def [model_eval] deref_def [model_eval] gene_orthology_url_def [model_eval]
  cell_version_def [model_eval] cell_asctime_def [model_eval]
  cell_url_def [model_eval] cell_acquire_def [model_eval] cell_other_urls_def [model_eval]
  cell_undirected_def [model_eval] cell_classes_def [model_eval] cell_mapping_def [model_eval]
  cell_corpus_def [model_eval] cell_before_def [model_eval] cell_node_data_def [model_eval]
  cell_relabel_def [model_eval] cell_after_def [model_eval] cell_save_def [model_eval]
  notebook_def [model_eval] run_all_def [model_eval]

subsection \<open>The pickle cache\<close>

lemma cache_paths_distinct: "orthology_path E \<noteq> corpus_path E"
  by (simp add: orthology_path_def corpus_path_def path_join_def)

text \<open>
  C20. Skip if cached: once the acquisition cell has run, running it again (even against a
  remote that now serves another graph) changes nothing; the first download is kept.
\<close>

theorem acquire_idempotent:
  assumes "cell_acquire E k = Inr k1" and "pybel_dir E' = pybel_dir E"
  shows "cell_acquire E' k1 = Inr k1"
  using assms
  by (auto simp: cell_acquire_def orthology_path_def Let_def split: option.splits)

lemma acquire_caches:
  assumes "cell_acquire E k = Inr k1"
  shows "\<exists>orthology. v_orthology k1 = Some orthology \<and> fs k1 (orthology_path E) = Some orthology \<and>
    (fs k (orthology_path E) \<noteq> None \<longrightarrow> fs k (orthology_path E) = Some orthology)"
  using assms by (auto simp: cell_acquire_def Let_def split: option.splits)

text \<open>
  C21. The pickle written by the last cell holds the relabelled corpus, so a later
  \<^verbatim>\<open>from_pickle\<close> of that path returns it; the cached orthology pickle is untouched.
\<close>

theorem save_roundtrip:
  assumes "cell_save E k = Inr k1"
  shows "\<exists>G. deref k (v_g_relabeled k) = Inr G \<and> fs k1 (corpus_path E) = Some G \<and>
    deref k1 (v_g_relabeled k1) = Inr G \<and> fs k1 (orthology_path E) = fs k (orthology_path E)"
  using assms cache_paths_distinct [of E]
  by (auto simp: cell_save_def deref_def Let_def split: sum.splits option.splits)

subsection \<open>What holds in every state of the kernel\<close>

text \<open>
  Whatever order the cells are run in, the derived globals agree with the orthology graph
  they were computed from, and that graph is the cached one. The cache is what makes this
  hold: once \<^verbatim>\<open>orthology\<close> is bound it is pickled, and re-running any cell recomputes
  the same values. The invariant is split by the fields it reads, so that a cell that
  writes none of them keeps it by the record's frame equations.
\<close>

definition refs_ok :: "(nat \<rightharpoonup> bel_graph) \<Rightarrow> nat option \<Rightarrow> nat option \<Rightarrow> bool" where
  "refs_ok h a b \<longleftrightarrow> set_option a \<subseteq> dom h \<and> set_option b \<subseteq> dom h"

definition cache_ok :: "bel_graph option \<Rightarrow> bel_graph option \<Rightarrow> bool" where
  "cache_ok cached G \<longleftrightarrow> G = None \<or> cached = G"

definition derived_ok ::
  "bel_graph option \<Rightarrow> ugraph option \<Rightarrow> classes option \<Rightarrow> (node \<rightharpoonup> node) option \<Rightarrow> bool" where
  "derived_ok G H st m \<longleftrightarrow>
     (case H of
        None \<Rightarrow> st = None \<and> m = None
      | Some h \<Rightarrow> map_option to_undirected G = Some h \<and>
          (case st of
             None \<Rightarrow> m = None
           | Some c \<Rightarrow> build_classes (connected_components h) = Inr c \<and>
               (case m of None \<Rightarrow> True | Some mp \<Rightarrow> build_mapping c (unodes h) = Inr mp)))"

definition nb_inv :: "env \<Rightarrow> kernel \<Rightarrow> bool" where
  "nb_inv E k \<longleftrightarrow> refs_ok (heap k) (v_g k) (v_g_relabeled k) \<and>
     cache_ok (fs k (orthology_path E)) (v_orthology k) \<and>
     derived_ok (v_orthology k) (v_orthology_undirected k) (v_classes k) (v_mapping k)"

lemma nb_inv_fresh: "nb_inv E (fresh_kernel files)"
  by (simp add: nb_inv_def fresh_kernel_def refs_ok_def cache_ok_def derived_ok_def)

lemma nb_inv_display:
  "nb_inv E k \<Longrightarrow> cell_version E' k = Inr k' \<Longrightarrow> nb_inv E k'"
  "nb_inv E k \<Longrightarrow> cell_asctime E' k = Inr k' \<Longrightarrow> nb_inv E k'"
  by (auto simp: nb_inv_def cell_version_def cell_asctime_def)

lemma nb_inv_url: "nb_inv E k \<Longrightarrow> cell_url k = Inr k' \<Longrightarrow> nb_inv E k'"
  by (auto simp: nb_inv_def cell_url_def)

lemma nb_inv_other_urls: "nb_inv E k \<Longrightarrow> cell_other_urls k = Inr k' \<Longrightarrow> nb_inv E k'"
  by (auto simp: nb_inv_def cell_other_urls_def)

lemma nb_inv_before: "nb_inv E k \<Longrightarrow> cell_before k = Inr k' \<Longrightarrow> nb_inv E k'"
  by (auto simp: nb_inv_def cell_before_def split: sum.splits)

lemma nb_inv_after: "nb_inv E k \<Longrightarrow> cell_after k = Inr k' \<Longrightarrow> nb_inv E k'"
  by (auto simp: nb_inv_def cell_after_def split: sum.splits)

lemma nb_inv_corpus: "nb_inv E k \<Longrightarrow> cell_corpus E k = Inr k' \<Longrightarrow> nb_inv E k'"
  by (auto simp: nb_inv_def cell_corpus_def refs_ok_def)

lemma deref_Inr: "deref k r = Inr G \<Longrightarrow> \<exists>a. r = Some a \<and> heap k a = Some G"
  by (auto simp: deref_def split: option.splits)

lemma nb_inv_node_data: "nb_inv E k \<Longrightarrow> cell_node_data k = Inr k' \<Longrightarrow> nb_inv E k'"
  by (auto simp: nb_inv_def cell_node_data_def refs_ok_def split: option.splits sum.splits)

lemma nb_inv_relabel: "nb_inv E k \<Longrightarrow> cell_relabel k = Inr k' \<Longrightarrow> nb_inv E k'"
  by (auto simp: nb_inv_def cell_relabel_def refs_ok_def split: option.splits sum.splits)

lemma nb_inv_save: "nb_inv E k \<Longrightarrow> cell_save E k = Inr k' \<Longrightarrow> nb_inv E k'"
  using cache_paths_distinct [of E]
  by (auto simp: nb_inv_def cell_save_def Let_def split: sum.splits)

lemma derived_ok_undirected:
  "derived_ok (Some G) H st m \<Longrightarrow> derived_ok (Some G) (Some (to_undirected G)) st m"
  by (cases H) (simp_all add: derived_ok_def)

lemma derived_ok_classes:
  assumes "derived_ok G (Some H) st m" and "build_classes (connected_components H) = Inr c"
  shows "derived_ok G (Some H) (Some c) m"
  using assms by (cases st) (simp_all add: derived_ok_def)

lemma nb_inv_acquire:
  assumes "nb_inv E k" and "cell_acquire E k = Inr k'"
  shows "nb_inv E k'"
proof (cases "fs k (orthology_path E)")
  case None
  with assms(1) have "v_orthology k = None" by (auto simp: nb_inv_def cache_ok_def)
  with assms(1) have "v_orthology_undirected k = None \<and> v_classes k = None \<and> v_mapping k = None"
    by (simp add: nb_inv_def derived_ok_def split: option.splits)
  with None assms show ?thesis
    by (auto simp: nb_inv_def cell_acquire_def cache_ok_def derived_ok_def Let_def split: option.splits)
next
  case (Some G)
  with assms(1) have "v_orthology k = None \<or> v_orthology k = Some G"
    by (auto simp: nb_inv_def cache_ok_def)
  then show ?thesis
  proof
    assume "v_orthology k = None"
    with assms(1) have "v_orthology_undirected k = None \<and> v_classes k = None \<and> v_mapping k = None"
      by (simp add: nb_inv_def derived_ok_def split: option.splits)
    with Some assms show ?thesis
      by (auto simp: nb_inv_def cell_acquire_def cache_ok_def derived_ok_def Let_def)
  next
    assume "v_orthology k = Some G"
    with Some assms show ?thesis
      by (auto simp: nb_inv_def cell_acquire_def cache_ok_def Let_def)
  qed
qed

lemma nb_inv_undirected:
  assumes "nb_inv E k" and "cell_undirected k = Inr k'"
  shows "nb_inv E k'"
proof -
  from assms(2) obtain G where G: "v_orthology k = Some G"
    and k': "k' = k\<lparr>v_orthology_undirected := Some (to_undirected G)\<rparr>"
    by (auto simp: cell_undirected_def split: option.splits)
  from assms(1) G have "derived_ok (Some G) (v_orthology_undirected k) (v_classes k) (v_mapping k)"
    by (simp add: nb_inv_def)
  then have "derived_ok (Some G) (Some (to_undirected G)) (v_classes k) (v_mapping k)"
    by (rule derived_ok_undirected)
  with assms(1) G show ?thesis by (simp add: k' nb_inv_def)
qed

lemma nb_inv_classes:
  assumes "nb_inv E k" and "cell_classes k = Inr k'"
  shows "nb_inv E k'"
proof -
  from assms(2) obtain H st where H: "v_orthology_undirected k = Some H"
    and st: "build_classes (connected_components H) = Inr st" and k': "k' = k\<lparr>v_classes := Some st\<rparr>"
    by (auto simp: cell_classes_def split: option.splits sum.splits)
  from assms(1) H have "derived_ok (v_orthology k) (Some H) (v_classes k) (v_mapping k)"
    by (simp add: nb_inv_def)
  then have "derived_ok (v_orthology k) (Some H) (Some st) (v_mapping k)"
    using st by (rule derived_ok_classes)
  with assms(1) H show ?thesis by (simp add: k' nb_inv_def)
qed

lemma nb_inv_mapping:
  assumes "nb_inv E k" and "cell_mapping k = Inr k'"
  shows "nb_inv E k'"
proof -
  from assms(2) obtain H st mp where H: "v_orthology_undirected k = Some H" and st: "v_classes k = Some st"
    and mp: "build_mapping st (unodes H) = Inr mp" and k': "k' = k\<lparr>v_mapping := Some mp\<rparr>"
    by (auto simp: cell_mapping_def split: option.splits sum.splits)
  have "derived_ok (v_orthology k) (Some H) (Some st) (Some mp)"
    using assms(1) H st mp by (simp add: nb_inv_def derived_ok_def)
  with assms(1) H st show ?thesis by (simp add: k' nb_inv_def)
qed

lemmas nb_inv_cells = nb_inv_display nb_inv_url nb_inv_acquire nb_inv_other_urls nb_inv_undirected
  nb_inv_classes nb_inv_mapping nb_inv_corpus nb_inv_before nb_inv_node_data nb_inv_relabel
  nb_inv_after nb_inv_save

lemma nb_inv_step: "nb_inv E k \<Longrightarrow> run_cell E c k = Inr k' \<Longrightarrow> nb_inv E k'"
  by (cases c) (auto intro: nb_inv_cells)

lemma nb_inv_reachable: "reachable E k0 k \<Longrightarrow> nb_inv E k0 \<Longrightarrow> nb_inv E k"
  by (induction rule: reachable.induct) (auto intro: nb_inv_step)

lemma reachable_run_cells:
  "run_cells E cs k = Inr k' \<Longrightarrow> reachable E k0 k \<Longrightarrow> reachable E k0 k'"
proof (induction cs arbitrary: k)
  case Nil
  then show ?case by simp
next
  case (Cons c cs)
  then obtain k1 where "run_cell E c k = Inr k1" "run_cells E cs k1 = Inr k'"
    by (auto split: sum.splits)
  with Cons show ?case by (blast intro: reachable.step)
qed

lemma run_all_reachable: "run_all E files = Inr k \<Longrightarrow> reachable E (fresh_kernel files) k"
  unfolding run_all_def by (erule reachable_run_cells) (rule reachable.start)

text \<open>
  C22. In every state the kernel reaches from a fresh start, by running the cells in any
  order and any number of times, a bound \<^verbatim>\<open>mapping\<close> is the canonical mapping of the
  bound \<^verbatim>\<open>orthology\<close> graph, which is the graph in the cache.
\<close>

theorem mapping_matches_cache:
  assumes "reachable E (fresh_kernel files) k" and "v_mapping k = Some m"
  shows "\<exists>G. v_orthology k = Some G \<and> fs k (orthology_path E) = Some G \<and> orthology_mapping G = Inr m"
proof -
  have inv: "nb_inv E k" using nb_inv_reachable [OF assms(1) nb_inv_fresh] .
  then obtain H st where H: "v_orthology_undirected k = Some H" and st: "v_classes k = Some st"
    using assms(2) by (auto simp: nb_inv_def derived_ok_def split: option.splits)
  with inv assms(2) obtain G where G: "v_orthology k = Some G" and HG: "H = to_undirected G"
    and c: "build_classes (connected_components H) = Inr st" and mp: "build_mapping st (unodes H) = Inr m"
    by (auto simp: nb_inv_def derived_ok_def)
  from inv G have "fs k (orthology_path E) = Some G" by (simp add: nb_inv_def cache_ok_def)
  with G HG c mp show ?thesis by (simp add: orthology_mapping_def)
qed

subsection \<open>A run of the notebook\<close>

text \<open>
  The graph cell 5 leaves bound to \<^verbatim>\<open>orthology\<close> on a fresh kernel: the cached one
  if the pickle exists, the download otherwise.
\<close>

definition orthology_source :: "env \<Rightarrow> (string \<rightharpoonup> bel_graph) \<Rightarrow> bel_graph" where
  "orthology_source E files =
     (case files (orthology_path E) of Some G \<Rightarrow> G | None \<Rightarrow> from_url E gene_orthology_url)"

lemma run_all_Inr:
  assumes st: "build_classes (connected_components (to_undirected (orthology_source E files))) = Inr st"
    and bm: "build_mapping st (unodes (to_undirected (orthology_source E files))) = Inr m"
    and c0: "namespace_counter (large_corpus E) = Inr c0"
    and md: "map_node_data (to_undirected (orthology_source E files)) m (large_corpus E) = Inr C1"
    and rl: "relabel_nodes C1 (relabel_fn m) = Inr G'"
    and c2: "namespace_counter G' = Inr c2"
  shows "\<exists>k. run_all E files = Inr k \<and> v_mapping k = Some m \<and>
    fs k = files(orthology_path E \<mapsto> orthology_source E files, corpus_path E \<mapsto> G') \<and>
    v_before_counter k = Some c0 \<and> v_after_counter k = Some c2"
proof -
  define k0 where "k0 = (fresh_kernel files)\<lparr>v_out := [pybel_version E, asctime E]\<rparr>"
  have sv: "cell_version E (fresh_kernel files) = Inr ((fresh_kernel files)\<lparr>v_out := [pybel_version E]\<rparr>)"
    by (simp add: cell_version_def fresh_kernel_def)
  have sa: "cell_asctime E ((fresh_kernel files)\<lparr>v_out := [pybel_version E]\<rparr>) = Inr k0"
    by (simp add: cell_asctime_def k0_def)
  define k1 where "k1 = k0\<lparr>v_gene_orthology_url := Some gene_orthology_url\<rparr>"
  define k2 where "k2 = k1\<lparr>v_path := Some (orthology_path E), v_orthology := Some (orthology_source E files),
    fs := files(orthology_path E \<mapsto> (orthology_source E files))\<rparr>"
  have s1: "cell_url k0 = Inr k1" by (simp add: cell_url_def k1_def)
  have s2: "cell_acquire E k1 = Inr k2"
  proof (cases "files (orthology_path E)")
    case None
    then show ?thesis
      by (simp add: cell_acquire_def k1_def k2_def k0_def fresh_kernel_def orthology_source_def Let_def)
  next
    case (Some G)
    then show ?thesis
      by (simp add: cell_acquire_def k1_def k2_def k0_def fresh_kernel_def orthology_source_def Let_def
          fun_upd_idem)
  qed
  obtain k3 where s3: "cell_other_urls k2 = Inr k3" and k3: "k3 = k2\<lparr>
     v_named_complexes_url :=
       Some ''http://resources.openbel.org/belframework/20150611/resource/named-complexes.bel'',
     v_protein_families_url :=
       Some ''http://resources.openbel.org/belframework/20150611/resource/protein-families.bel''\<rparr>"
    by (simp add: cell_other_urls_def)
  define k4 where "k4 = k3\<lparr>v_orthology_undirected := Some (to_undirected (orthology_source E files))\<rparr>"
  have s4: "cell_undirected k3 = Inr k4" by (simp add: cell_undirected_def k4_def k3 k2_def)
  define k5 where "k5 = k4\<lparr>v_classes := Some st\<rparr>"
  have s5: "cell_classes k4 = Inr k5" using st by (simp add: cell_classes_def k5_def k4_def)
  define k6 where "k6 = k5\<lparr>v_mapping := Some m\<rparr>"
  have s6: "cell_mapping k5 = Inr k6" using bm by (simp add: cell_mapping_def k6_def k5_def k4_def)
  define k7 where "k7 = k6\<lparr>heap := [0 \<mapsto> (large_corpus E)], next_ref := 1, v_g := Some 0\<rparr>"
  have s7: "cell_corpus E k6 = Inr k7"
    by (simp add: cell_corpus_def k7_def k6_def k5_def k4_def k3 k2_def k1_def k0_def fresh_kernel_def)
  define k8 where "k8 = k7\<lparr>v_before_counter := Some c0\<rparr>"
  have s8: "cell_before k7 = Inr k8" using c0 by (simp add: cell_before_def deref_def k8_def k7_def)
  define k9 where "k9 = k8\<lparr>heap := [0 \<mapsto> C1]\<rparr>"
  have s9: "cell_node_data k8 = Inr k9"
    using md by (simp add: cell_node_data_def deref_def k9_def k8_def k7_def k6_def k5_def k4_def)
  define k10 where "k10 = k9\<lparr>heap := [0 \<mapsto> G'], v_g_relabeled := Some 0\<rparr>"
  have s10: "cell_relabel k9 = Inr k10"
    using rl by (simp add: cell_relabel_def deref_def k10_def k9_def k8_def k7_def k6_def)
  define k11 where "k11 = k10\<lparr>v_after_counter := Some c2\<rparr>"
  have s11: "cell_after k10 = Inr k11" using c2 by (simp add: cell_after_def deref_def k11_def k10_def)
  define k12 where "k12 = k11\<lparr>v_path := Some (corpus_path E), fs := (fs k11)(corpus_path E \<mapsto> G')\<rparr>"
  have s12: "cell_save E k11 = Inr k12"
    by (simp add: cell_save_def deref_def k12_def k11_def k10_def Let_def)
  have run: "run_all E files = Inr k12"
    by (simp add: run_all_def notebook_def sv sa s1 s2 s3 s4 s5 s6 s7 s8 s9 s10 s11 s12)
  have f12: "fs k12 = files(orthology_path E \<mapsto> (orthology_source E files), corpus_path E \<mapsto> G')"
    by (simp add: k12_def k11_def k10_def k9_def k8_def k7_def k6_def k5_def k4_def k3 k2_def)
  have "v_mapping k12 = Some m" "v_before_counter k12 = Some c0" "v_after_counter k12 = Some c2"
    by (simp_all add: k12_def k11_def k10_def k9_def k8_def k7_def k6_def)
  with run f12 show ?thesis by blast
qed

definition ortho_ex :: bel_graph where
  "ortho_ex = \<lparr>g_node = [(hA, [''type'' \<mapsto> ''Gene'']), (mA, [''type'' \<mapsto> ''Gene''])],
     g_edges = [((hA, mA, 0), [''relation'' \<mapsto> ''orthologous''])]\<rparr>"

definition env_ex :: env where
  "env_ex = \<lparr>pybel_dir = ''/home/user/.pybel'', from_url = (\<lambda>_. ortho_ex), large_corpus = collide,
     pybel_version = ''0.2.6'', asctime = ''Wed Nov 30 13:54:04 2016''\<rparr>"

lemma run_all_ex:
  "case run_all env_ex Map.empty of Inl e \<Rightarrow> False
   | Inr k \<Rightarrow> v_mapping k = Some [hA \<mapsto> mA, mA \<mapsto> mA]"
  by (simp add: env_ex_def ortho_ex_def collide_def model_eval Let_def fun_eq_iff)

theorem mapping_matches_cache_witness:
  "\<exists>k. run_all env_ex Map.empty = Inr k \<and> reachable env_ex (fresh_kernel Map.empty) k \<and>
     v_mapping k = Some [hA \<mapsto> mA, mA \<mapsto> mA] \<and>
     (\<exists>G. v_orthology k = Some G \<and> fs k (orthology_path env_ex) = Some G \<and>
        orthology_mapping G = Inr [hA \<mapsto> mA, mA \<mapsto> mA])"
proof -
  from run_all_ex obtain k where run: "run_all env_ex Map.empty = Inr k"
    and m: "v_mapping k = Some [hA \<mapsto> mA, mA \<mapsto> mA]"
    by (auto split: sum.splits)
  have r: "reachable env_ex (fresh_kernel Map.empty) k" using run by (rule run_all_reachable)
  from mapping_matches_cache [OF r m] run r m show ?thesis by blast
qed

subsection \<open>\<^verbatim>\<open>g\<close> and \<^verbatim>\<open>g_relabeled\<close> are one object\<close>

lemma cell_relabel_Inr:
  assumes "cell_relabel k = Inr k1"
  shows "\<exists>a. v_g k = Some a \<and> v_g_relabeled k1 = Some a \<and> v_g k1 = Some a"
  using assms by (auto simp: cell_relabel_def split: option.splits sum.splits)

lemma cell_counter_Inr:
  "cell_before k = Inr k1 \<Longrightarrow> heap k1 = heap k \<and> v_g k1 = v_g k \<and> v_g_relabeled k1 = v_g_relabeled k \<and>
     (\<exists>G c. deref k (v_g k) = Inr G \<and> namespace_counter G = Inr c \<and> v_before_counter k1 = Some c \<and>
        v_after_counter k1 = v_after_counter k)"
  "cell_after k = Inr k1 \<Longrightarrow> heap k1 = heap k \<and> v_g k1 = v_g k \<and> v_g_relabeled k1 = v_g_relabeled k \<and>
     (\<exists>G c. deref k (v_g_relabeled k) = Inr G \<and> namespace_counter G = Inr c \<and> v_after_counter k1 = Some c \<and>
        v_before_counter k1 = v_before_counter k)"
  by (auto simp: cell_before_def cell_after_def split: sum.splits)

text \<open>
  C23. Because \<^verbatim>\<open>relabel_nodes(g, ..., copy=False)\<close> relabels \<^verbatim>\<open>g\<close> itself and returns
  it, re-running the "before" counter (cell 15) after cell 18 counts the relabelled graph:
  it then reports exactly what the "after" counter reports.
\<close>

theorem rerun_before_counts_relabelled:
  assumes "run_cells E [Relabel, After_counter, Before_counter] k = Inr k'"
  shows "v_before_counter k' = v_after_counter k'"
proof -
  from assms obtain k1 k2 where r: "cell_relabel k = Inr k1" and a: "cell_after k1 = Inr k2"
    and b: "cell_before k2 = Inr k'"
    by (auto split: sum.splits)
  from cell_relabel_Inr [OF r] obtain x where x: "v_g_relabeled k1 = Some x" "v_g k1 = Some x" by blast
  from cell_counter_Inr(2) [OF a] x obtain G c where
    k2: "heap k2 = heap k1" "v_g k2 = Some x" "deref k1 (Some x) = Inr G" "namespace_counter G = Inr c"
      "v_after_counter k2 = Some c" by auto
  from cell_counter_Inr(1) [OF b] k2 show ?thesis by (auto simp: deref_def)
qed

lemma run_ex_node_data:
  "case run_cells env_ex [Url, Acquire, Other_urls, Undirected, Classes, Mapping, Corpus,
     Before_counter, Node_data] (fresh_kernel Map.empty) of Inl e \<Rightarrow> False
   | Inr k \<Rightarrow> (case run_cells env_ex [Relabel, After_counter, Before_counter] k of Inl e \<Rightarrow> False
       | Inr k' \<Rightarrow> v_after_counter k' = Some [(''RGD'', 1), (''MGI'', 1)])"
  by (simp add: env_ex_def ortho_ex_def collide_def model_eval Let_def)

theorem rerun_before_counts_relabelled_witness:
  "\<exists>k k'. run_cells env_ex [Url, Acquire, Other_urls, Undirected, Classes, Mapping, Corpus,
     Before_counter, Node_data] (fresh_kernel Map.empty) = Inr k \<and>
   run_cells env_ex [Relabel, After_counter, Before_counter] k = Inr k' \<and>
   v_after_counter k' = Some [(''RGD'', 1), (''MGI'', 1)] \<and> v_before_counter k' = v_after_counter k'"
proof -
  from run_ex_node_data obtain k k' where
    r1: "run_cells env_ex [Url, Acquire, Other_urls, Undirected, Classes, Mapping, Corpus,
      Before_counter, Node_data] (fresh_kernel Map.empty) = Inr k" and
    r2: "run_cells env_ex [Relabel, After_counter, Before_counter] k = Inr k'" and
    c: "v_after_counter k' = Some [(''RGD'', 1), (''MGI'', 1)]"
    by (auto split: sum.splits)
  from rerun_before_counts_relabelled [OF r2] r1 r2 c show ?thesis by blast
qed

lemma run_all_ex_counters:
  "case run_all env_ex Map.empty of Inl e \<Rightarrow> False
   | Inr k \<Rightarrow> v_before_counter k = Some [(''HGNC'', 1), (''RGD'', 1)] \<and>
       v_after_counter k = Some [(''RGD'', 1), (''MGI'', 1)]"
  by (simp add: env_ex_def ortho_ex_def collide_def model_eval Let_def)

subsection \<open>The cache on the example run\<close>

theorem acquire_idempotent_witness:
  "\<exists>k k1. cell_url (fresh_kernel Map.empty) = Inr k \<and> cell_acquire env_ex k = Inr k1 \<and>
     v_orthology k1 = Some ortho_ex \<and>
     pybel_dir (env_ex\<lparr>from_url := \<lambda>_. collide\<rparr>) = pybel_dir env_ex \<and>
     cell_acquire (env_ex\<lparr>from_url := \<lambda>_. collide\<rparr>) k1 = Inr k1"
proof -
  have "case cell_url (fresh_kernel Map.empty) of Inl e \<Rightarrow> False
    | Inr k \<Rightarrow> (case cell_acquire env_ex k of Inl e \<Rightarrow> False | Inr k1 \<Rightarrow> v_orthology k1 = Some ortho_ex)"
    by (simp add: env_ex_def model_eval Let_def)
  then obtain k k1 where k: "cell_url (fresh_kernel Map.empty) = Inr k"
    and k1: "cell_acquire env_ex k = Inr k1" and o: "v_orthology k1 = Some ortho_ex"
    by (auto split: sum.splits)
  have d: "pybel_dir (env_ex\<lparr>from_url := \<lambda>_. collide\<rparr>) = pybel_dir env_ex" by simp
  from acquire_idempotent [OF k1 d] k k1 o d show ?thesis by blast
qed

theorem save_roundtrip_witness:
  "\<exists>k k1. run_cells env_ex [Url, Acquire, Other_urls, Undirected, Classes, Mapping, Corpus,
     Before_counter, Node_data, Relabel, After_counter] (fresh_kernel Map.empty) = Inr k \<and>
   cell_save env_ex k = Inr k1 \<and>
   (\<exists>G. deref k (v_g_relabeled k) = Inr G \<and> fs k1 (corpus_path env_ex) = Some G \<and>
      deref k1 (v_g_relabeled k1) = Inr G \<and> fs k1 (orthology_path env_ex) = fs k (orthology_path env_ex))"
proof -
  have "case run_cells env_ex [Url, Acquire, Other_urls, Undirected, Classes, Mapping, Corpus,
     Before_counter, Node_data, Relabel, After_counter] (fresh_kernel Map.empty) of Inl e \<Rightarrow> False
    | Inr k \<Rightarrow> (case cell_save env_ex k of Inl e \<Rightarrow> False | Inr k1 \<Rightarrow> True)"
    by (simp add: env_ex_def ortho_ex_def collide_def model_eval Let_def)
  then obtain k k1 where k: "run_cells env_ex [Url, Acquire, Other_urls, Undirected, Classes, Mapping,
      Corpus, Before_counter, Node_data, Relabel, After_counter] (fresh_kernel Map.empty) = Inr k"
    and k1: "cell_save env_ex k = Inr k1"
    by (auto split: sum.splits)
  from save_roundtrip [OF k1] k k1 show ?thesis by blast
qed

end
