(* ===== verification/Exceptions.thy ===== *)
theory Exceptions
  imports Notebook
begin

text \<open>
  What the Jupyter kernel keeps when a cell raises. The semantics of \<open>Notebook\<close> drops
  the kernel on an exception; a real kernel keeps every global bound and every object
  changed before the raise. Here a cell returns the kernel together with the exception it
  raised, if any. Cell 11 binds its three dictionaries before it reads
  \<^verbatim>\<open>orthology_undirected\<close> and fills them member by member; cell 12 binds
  \<^verbatim>\<open>mapping = {}\<close> before its loop; cell 17 updates the node dictionaries of
  \<^verbatim>\<open>g\<close> in place; cell 18 relabels \<^verbatim>\<open>g\<close> in place and binds
  \<^verbatim>\<open>g_relabeled\<close> only when \<^verbatim>\<open>relabel_nodes\<close> returns; cells 5 and 15 bind
  \<^verbatim>\<open>path\<close> on their first line. The other cells raise before they bind anything. The
  loops stopped by an exception are \<open>_exc\<close> copies of the loops of the component
  theories that return the state reached at the raise. \<open>run_cells_exc\<close> is Run All,
  which stops at the first exception; \<open>run_session\<close> runs cells one after another
  whatever they raise, as a user does, and \<open>reachable_exc\<close> is the states so reached.
\<close>

section \<open>What the kernel keeps when a cell raises\<close>

definition lift_exc :: "'a \<Rightarrow> py_error + 'a \<Rightarrow> 'a \<times> py_error option" where
  "lift_exc s r = (case r of Inl e \<Rightarrow> (s, Some e) | Inr s' \<Rightarrow> (s', None))"

subsection \<open>Cell 11 stopped inside its loops\<close>

fun scan_members_exc :: "nat \<Rightarrow> classes \<Rightarrow> node list \<Rightarrow> classes \<times> py_error option" where
  "scan_members_exc i st [] = (st, None)"
| "scan_members_exc i st (m # ms) =
     (case unpack3 m of
        Inl e \<Rightarrow> (st, Some e)
      | Inr (function, namespace, name) \<Rightarrow>
          (let st1 = st\<lparr>member2index := (member2index st)([function, namespace, name] \<mapsto> i)\<rparr>;
               st2 = (if ''MGI'' = namespace
                      then st1\<lparr>index2mgi := (index2mgi st1)(i \<mapsto> [function, namespace, name])\<rparr>
                      else st1)
           in scan_members_exc i st2 ms))"

fun scan_components_exc :: "nat \<Rightarrow> classes \<Rightarrow> node list list \<Rightarrow> classes \<times> py_error option" where
  "scan_components_exc i st [] = (st, None)"
| "scan_components_exc i st (c # cs) =
     (case scan_members_exc i (st\<lparr>index2component := (index2component st)(i \<mapsto> c)\<rparr>) c of
        (st', None) \<Rightarrow> scan_components_exc (Suc i) st' cs
      | (st', Some e) \<Rightarrow> (st', Some e))"

definition build_classes_exc :: "node list list \<Rightarrow> classes \<times> py_error option" where
  "build_classes_exc cs = scan_components_exc 0 empty_classes cs"

subsection \<open>Cell 12 stopped inside its loop\<close>

fun mapping_loop_exc ::
  "classes \<Rightarrow> (node \<rightharpoonup> node) \<Rightarrow> node list \<Rightarrow> (node \<rightharpoonup> node) \<times> py_error option" where
  "mapping_loop_exc st mapping [] = (mapping, None)"
| "mapping_loop_exc st mapping (n # ns) =
     (case unpack3 n of
        Inl e \<Rightarrow> (mapping, Some e)
      | Inr (function, namepace, name) \<Rightarrow>
          (case member2index st [function, namepace, name] of
             None \<Rightarrow> mapping_loop_exc st mapping ns
           | Some index \<Rightarrow>
               (case index2mgi st index of
                  None \<Rightarrow> mapping_loop_exc st mapping ns
                | Some r \<Rightarrow> mapping_loop_exc st (mapping([function, namepace, name] \<mapsto> r)) ns)))"

subsection \<open>Cell 17 stopped inside its loop\<close>

fun merge_node_data_exc ::
  "ugraph \<Rightarrow> (node \<rightharpoonup> node) \<Rightarrow> (node \<times> attrs) list \<Rightarrow> (node \<times> attrs) list \<times> py_error option" where
  "merge_node_data_exc H mapping [] = ([], None)"
| "merge_node_data_exc H mapping (nd # rest) =
     (case merge_one H mapping nd of
        Inl e \<Rightarrow> (nd # rest, Some e)
      | Inr nd' \<Rightarrow> (case merge_node_data_exc H mapping rest of (ns, r) \<Rightarrow> (nd' # ns, r)))"

definition map_node_data_exc :: "ugraph \<Rightarrow> (node \<rightharpoonup> node) \<Rightarrow> bel_graph \<Rightarrow> bel_graph \<times> py_error option" where
  "map_node_data_exc H mapping g =
     (case merge_node_data_exc H mapping (g_node g) of (ns, r) \<Rightarrow> (g\<lparr>g_node := ns\<rparr>, r))"

subsection \<open>Cell 18 stopped inside the relabelling loop\<close>

fun relabel_loop_exc :: "(node \<times> node) list \<Rightarrow> bel_graph \<Rightarrow> node list \<Rightarrow> bel_graph \<times> py_error option" where
  "relabel_loop_exc m g [] = (g, None)"
| "relabel_loop_exc m g (old # olds) =
     (case relabel_one m g old of Inl e \<Rightarrow> (g, Some e) | Inr g' \<Rightarrow> relabel_loop_exc m g' olds)"

definition relabel_inplace_exc :: "bel_graph \<Rightarrow> (node \<times> node) list \<Rightarrow> bel_graph \<times> py_error option" where
  "relabel_inplace_exc g m =
     (if list_ex (\<lambda>x. x \<in> set (map snd m)) (map fst m)
      then (case topological_sort_rev m of
              Inl e \<Rightarrow> (g, Some e)
            | Inr order \<Rightarrow> relabel_loop_exc m g order)
      else relabel_loop_exc m g (map fst m))"

definition relabel_nodes_exc :: "bel_graph \<Rightarrow> (node \<Rightarrow> node) \<Rightarrow> bel_graph \<times> py_error option" where
  "relabel_nodes_exc g f = relabel_inplace_exc g (relabel_dict g f)"

subsection \<open>The cells\<close>

definition cell_acquire_exc :: "env \<Rightarrow> kernel \<Rightarrow> kernel \<times> py_error option" where
  "cell_acquire_exc E k = (case cell_acquire E k of
     Inl e \<Rightarrow> (k\<lparr>v_path := Some (orthology_path E)\<rparr>, Some e)
   | Inr k' \<Rightarrow> (k', None))"

definition cell_classes_exc :: "kernel \<Rightarrow> kernel \<times> py_error option" where
  "cell_classes_exc k = (case v_orthology_undirected k of
     None \<Rightarrow> (k\<lparr>v_classes := Some empty_classes\<rparr>, Some NameError)
   | Some H \<Rightarrow> (case build_classes_exc (connected_components H) of
       (st, r) \<Rightarrow> (k\<lparr>v_classes := Some st\<rparr>, r)))"

definition cell_mapping_exc :: "kernel \<Rightarrow> kernel \<times> py_error option" where
  "cell_mapping_exc k = (case (v_orthology_undirected k, v_classes k) of
     (Some H, Some st) \<Rightarrow> (case mapping_loop_exc st Map.empty (unodes H) of
        (mapping, r) \<Rightarrow> (k\<lparr>v_mapping := Some mapping\<rparr>, r))
   | _ \<Rightarrow> (k\<lparr>v_mapping := Some Map.empty\<rparr>, Some NameError))"

definition cell_node_data_exc :: "kernel \<Rightarrow> kernel \<times> py_error option" where
  "cell_node_data_exc k = (case (v_g k, deref k (v_g k), v_orthology_undirected k, v_mapping k) of
     (Some a, Inr G, Some H, Some mapping) \<Rightarrow> (case map_node_data_exc H mapping G of
        (G', r) \<Rightarrow> (k\<lparr>heap := (heap k)(a \<mapsto> G')\<rparr>, r))
   | (_, Inl e, _, _) \<Rightarrow> (k, Some e)
   | _ \<Rightarrow> (k, Some NameError))"

definition cell_relabel_exc :: "kernel \<Rightarrow> kernel \<times> py_error option" where
  "cell_relabel_exc k = (case (v_g k, deref k (v_g k), v_mapping k) of
     (Some a, Inr G, Some mapping) \<Rightarrow> (case relabel_nodes_exc G (relabel_fn mapping) of
        (G', None) \<Rightarrow> (k\<lparr>heap := (heap k)(a \<mapsto> G'), v_g_relabeled := Some a\<rparr>, None)
      | (G', Some e) \<Rightarrow> (k\<lparr>heap := (heap k)(a \<mapsto> G')\<rparr>, Some e))
   | (_, Inl e, _) \<Rightarrow> (k, Some e)
   | _ \<Rightarrow> (k, Some NameError))"

definition cell_save_exc :: "env \<Rightarrow> kernel \<Rightarrow> kernel \<times> py_error option" where
  "cell_save_exc E k = (case cell_save E k of
     Inl e \<Rightarrow> (k\<lparr>v_path := Some (corpus_path E)\<rparr>, Some e)
   | Inr k' \<Rightarrow> (k', None))"

fun run_cell_exc :: "env \<Rightarrow> cell \<Rightarrow> kernel \<Rightarrow> kernel \<times> py_error option" where
  "run_cell_exc E Acquire k = cell_acquire_exc E k"
| "run_cell_exc E Classes k = cell_classes_exc k"
| "run_cell_exc E Mapping k = cell_mapping_exc k"
| "run_cell_exc E Node_data k = cell_node_data_exc k"
| "run_cell_exc E Relabel k = cell_relabel_exc k"
| "run_cell_exc E Save k = cell_save_exc E k"
| "run_cell_exc E c k = lift_exc k (run_cell E c k)"

fun run_cells_exc :: "env \<Rightarrow> cell list \<Rightarrow> kernel \<Rightarrow> kernel \<times> py_error option" where
  "run_cells_exc E [] k = (k, None)"
| "run_cells_exc E (c # cs) k = (case run_cell_exc E c k of
     (k', None) \<Rightarrow> run_cells_exc E cs k'
   | (k', Some e) \<Rightarrow> (k', Some e))"

fun run_session :: "env \<Rightarrow> cell list \<Rightarrow> kernel \<Rightarrow> kernel \<times> py_error option list" where
  "run_session E [] k = (k, [])"
| "run_session E (c # cs) k = (case run_cell_exc E c k of
     (k', r) \<Rightarrow> (case run_session E cs k' of (k'', rs) \<Rightarrow> (k'', r # rs)))"

inductive reachable_exc :: "env \<Rightarrow> kernel \<Rightarrow> kernel \<Rightarrow> bool" for E k0 where
  start: "reachable_exc E k0 k0"
| step: "reachable_exc E k0 k \<Longrightarrow> run_cell_exc E c k = (k', r) \<Longrightarrow> reachable_exc E k0 k'"

declare lift_exc_def [model_eval] build_classes_exc_def [model_eval]
  map_node_data_exc_def [model_eval] relabel_inplace_exc_def [model_eval]
  relabel_nodes_exc_def [model_eval] cell_acquire_exc_def [model_eval] cell_classes_exc_def [model_eval]
  cell_mapping_exc_def [model_eval] cell_node_data_exc_def [model_eval] cell_relabel_exc_def [model_eval]
  cell_save_exc_def [model_eval]

subsection \<open>The state cell 11 leaves when it raises\<close>

lemma members_done_Nil [simp]: "members_done i st [] = st"
  by (simp add: members_done_def)

lemma components_done_Nil [simp]: "components_done i st [] = st"
  by (rule classes.equality) (auto simp: components_done_def fun_eq_iff)

lemma scan_members_exc_eq:
  "scan_members_exc i st c =
     (members_done i st (takeWhile triple c), if \<forall>m \<in> set c. triple m then None else Some ValueError)"
proof (induction c arbitrary: st)
  case Nil
  then show ?case by simp
next
  case (Cons m ms)
  show ?case
  proof (cases "triple m")
    case False
    then show ?thesis by (simp add: unpack3_not_triple)
  next
    case True
    then obtain f ns nm where m: "m = [f, ns, nm]" using unpack3_triple by blast
    let ?st1 = "st\<lparr>member2index := (member2index st)(m \<mapsto> i)\<rparr>"
    let ?st2 = "if ''MGI'' = ns then ?st1\<lparr>index2mgi := (index2mgi ?st1)(i \<mapsto> m)\<rparr> else ?st1"
    have step: "scan_members_exc i st (m # ms) = scan_members_exc i ?st2 ms"
      by (simp add: m Let_def)
    have "members_done i ?st2 (takeWhile triple ms) = members_done i st (m # takeWhile triple ms)"
      by (auto simp: members_done_def m is_mgi_def last_such_Cons fun_eq_iff split: option.splits)
    with step Cons.IH [of ?st2] True show ?thesis by simp
  qed
qed

lemma scan_components_exc_stops:
  assumes "\<forall>c \<in> set cs1. \<forall>m \<in> set c. triple m" and "\<not> (\<forall>m \<in> set c. triple m)"
  shows "scan_components_exc i st (cs1 @ c # cs2) =
    (let st' = components_done i st cs1 in
     (members_done (i + length cs1) (st'\<lparr>index2component := (index2component st')(i + length cs1 \<mapsto> c)\<rparr>)
        (takeWhile triple c), Some ValueError))"
  using assms(1)
proof (induction cs1 arbitrary: i st)
  case Nil
  with assms(2) show ?case by (auto simp: scan_members_exc_eq fun_upd_def)
next
  case (Cons c1 cs1)
  then have "\<forall>m \<in> set c1. triple m" by simp
  with Cons components_done_Cons [of i st c1 cs1] show ?case
    by (simp add: scan_members_exc_eq takeWhile_eq_all_conv [THEN iffD2])
qed

text \<open>
  C30. When cell 11 raises ValueError on a member that is not a triple, the three
  dictionaries it bound stay behind filled: every earlier component in full, the failing
  component in \<^verbatim>\<open>index2component\<close>, and of its members exactly those before the bad one.
\<close>

theorem build_classes_exc_stops:
  assumes "\<forall>c \<in> set cs1. \<forall>m \<in> set c. triple m" and "\<forall>m \<in> set ms1. triple m" and "\<not> triple m"
  shows "build_classes_exc (cs1 @ (ms1 @ m # ms2) # cs2) =
    (let st = components_done 0 empty_classes cs1 in
     (members_done (length cs1)
        (st\<lparr>index2component := (index2component st)(length cs1 \<mapsto> ms1 @ m # ms2)\<rparr>) ms1,
      Some ValueError))"
proof -
  have "takeWhile triple (ms1 @ m # ms2) = ms1" using assms(2,3) by (simp add: takeWhile_append2)
  with scan_components_exc_stops [OF assms(1), of "ms1 @ m # ms2" 0 empty_classes cs2] assms(3)
  show ?thesis by (simp add: build_classes_exc_def Let_def)
qed

subsection \<open>The state cell 17 leaves when it raises\<close>

text \<open>
  C31. Cell 17 updates the node dictionaries of \<^verbatim>\<open>g\<close> in place, so when it raises
  KeyError the nodes before the failing one are already merged and the rest are untouched.
\<close>

theorem merge_node_data_exc_eq:
  "merge_node_data_exc H m ns =
     (map (\<lambda>(n, d). (n, merged_attrs H m n d)) (takeWhile (\<lambda>(n, d). merge_ok H m n d) ns) @
        dropWhile (\<lambda>(n, d). merge_ok H m n d) ns,
      if \<forall>(n, d) \<in> set ns. merge_ok H m n d then None else Some KeyError)"
proof (induction ns)
  case Nil
  then show ?case by simp
next
  case (Cons nd ns)
  obtain n d where nd: "nd = (n, d)" by (cases nd)
  then show ?case using Cons by (simp add: merge_one_eq)
qed

subsection \<open>What survives an exception\<close>

definition exc_inv :: "env \<Rightarrow> kernel \<Rightarrow> bool" where
  "exc_inv E k \<longleftrightarrow> refs_ok (heap k) (v_g k) (v_g_relabeled k) \<and>
     cache_ok (fs k (orthology_path E)) (v_orthology k)"

lemma exc_inv_nb_inv: "nb_inv E k \<Longrightarrow> exc_inv E k"
  by (simp add: nb_inv_def exc_inv_def)

lemma exc_inv_fields:
  "exc_inv E (k\<lparr>v_path := p\<rparr>) = exc_inv E k" "exc_inv E (k\<lparr>v_classes := c\<rparr>) = exc_inv E k"
  "exc_inv E (k\<lparr>v_mapping := mp\<rparr>) = exc_inv E k"
  by (simp_all add: exc_inv_def)

lemma exc_inv_heap:
  "exc_inv E k \<Longrightarrow> v_g k = Some a \<Longrightarrow> exc_inv E (k\<lparr>heap := (heap k)(a \<mapsto> G)\<rparr>)"
  "exc_inv E k \<Longrightarrow> v_g k = Some a \<Longrightarrow> exc_inv E (k\<lparr>heap := (heap k)(a \<mapsto> G), v_g_relabeled := Some a\<rparr>)"
  by (auto simp: exc_inv_def refs_ok_def)

lemma exc_inv_success:
  assumes "exc_inv E k" and "run_cell E c k = Inr k'" and "c \<notin> {Acquire, Save}"
  shows "exc_inv E k'"
  using assms
  by (cases c) (auto simp: exc_inv_def refs_ok_def cell_version_def cell_asctime_def cell_url_def
      cell_other_urls_def cell_undirected_def cell_classes_def cell_mapping_def cell_corpus_def
      cell_before_def cell_after_def cell_node_data_def cell_relabel_def deref_def
      split: option.splits sum.splits)

lemma exc_inv_step:
  assumes "exc_inv E k" and "run_cell_exc E c k = (k', r)"
  shows "exc_inv E k'"
proof -
  have lift: "exc_inv E k'" if l: "run_cell_exc E c k = lift_exc k (run_cell E c k)" and "c \<notin> {Acquire, Save}"
  proof (cases "run_cell E c k")
    case (Inl e)
    with assms(2) l show ?thesis using assms(1) by (simp add: lift_exc_def)
  next
    case (Inr k1)
    with assms(2) l have "k' = k1" by (simp add: lift_exc_def)
    with Inr exc_inv_success [OF assms(1) _ that(2)] show ?thesis by simp
  qed
  show ?thesis
proof (cases c)
  case Acquire
  show ?thesis
  proof (cases "cell_acquire E k")
    case (Inl e)
    with assms Acquire show ?thesis by (auto simp: cell_acquire_exc_def exc_inv_fields)
  next
    case (Inr k1)
    from Inr have "fs k1 (orthology_path E) = v_orthology k1 \<and> v_orthology k1 \<noteq> None \<and>
        heap k1 = heap k \<and> v_g k1 = v_g k \<and> v_g_relabeled k1 = v_g_relabeled k"
      by (auto simp: cell_acquire_def Let_def split: option.splits)
    with assms Acquire Inr show ?thesis by (auto simp: cell_acquire_exc_def exc_inv_def cache_ok_def)
  qed
next
  case Save
  then show ?thesis
    using assms cache_paths_distinct [of E]
    by (auto simp: cell_save_exc_def cell_save_def exc_inv_def Let_def split: sum.splits)
next
  case Classes
  then show ?thesis
    using assms by (auto simp: cell_classes_exc_def exc_inv_fields split: option.splits prod.splits)
next
  case Mapping
  then show ?thesis
    using assms by (auto simp: cell_mapping_exc_def exc_inv_fields split: option.splits prod.splits)
next
  case Node_data
  then show ?thesis
    using assms by (auto simp: cell_node_data_exc_def exc_inv_heap split: option.splits prod.splits sum.splits)
next
  case Relabel
  then show ?thesis
    using assms
    by (auto simp: cell_relabel_exc_def exc_inv_heap split: option.splits prod.splits sum.splits)
qed (rule lift; simp)+
qed

lemma exc_inv_reachable: "reachable_exc E k0 k \<Longrightarrow> exc_inv E k0 \<Longrightarrow> exc_inv E k"
  by (induction rule: reachable_exc.induct) (auto intro: exc_inv_step)

lemma reachable_exc_session:
  "run_session E cs k = (k', rs) \<Longrightarrow> reachable_exc E k0 k \<Longrightarrow> reachable_exc E k0 k'"
proof (induction cs arbitrary: k rs)
  case Nil
  then show ?case by simp
next
  case (Cons c cs)
  obtain k1 r where k1: "run_cell_exc E c k = (k1, r)" by fastforce
  with Cons.prems obtain rs' where "run_session E cs k1 = (k', rs')" by (auto split: prod.splits)
  with Cons k1 show ?case by (blast intro: reachable_exc.step)
qed

text \<open>
  C32. Whatever cells are run, in any order and whether they complete or raise, a bound
  \<^verbatim>\<open>orthology\<close> is the graph in the cache and \<^verbatim>\<open>g\<close> and \<^verbatim>\<open>g_relabeled\<close>
  name live graph objects. (The rest of the invariant of C22 does not survive exceptions,
  see C33.)
\<close>

theorem cache_survives_exceptions:
  assumes "reachable_exc E (fresh_kernel files) k"
  shows "cache_ok (fs k (orthology_path E)) (v_orthology k) \<and>
    set_option (v_g k) \<subseteq> dom (heap k) \<and> set_option (v_g_relabeled k) \<subseteq> dom (heap k)"
  using exc_inv_reachable [OF assms exc_inv_nb_inv [OF nb_inv_fresh]]
  by (simp add: exc_inv_def refs_ok_def)

subsection \<open>Running cell 11 before cell 10\<close>

text \<open>
  A user who runs cell 11 before cell 10 sees NameError on \<^verbatim>\<open>orthology_undirected\<close>,
  runs cell 10, and goes on from cell 12. Cell 11 has bound its three dictionaries before
  it raised, so cell 12 finds them, empty, and raises nothing.
\<close>

definition session_ex :: "cell list" where
  "session_ex = [Url, Acquire, Other_urls, Classes, Undirected, Mapping, Corpus, Node_data, Relabel, Save]"

lemma run_session_ex_refs:
  "case run_session env_ex session_ex (fresh_kernel Map.empty) of (k, rs) \<Rightarrow>
     v_orthology k = Some ortho_ex \<and> v_g k \<noteq> None \<and> v_g_relabeled k \<noteq> None"
  by (simp add: session_ex_def env_ex_def ortho_ex_def collide_def model_eval Let_def)

lemma orthology_mapping_ortho_ex: "orthology_mapping ortho_ex = Inr [hA \<mapsto> mA, mA \<mapsto> mA]"
  by (simp add: ortho_ex_def model_eval Let_def fun_eq_iff)

lemma mapping_loop_exc_empty:
  "\<forall>n \<in> set ns. triple n \<Longrightarrow> mapping_loop_exc empty_classes mp ns = (mp, None)"
  by (induction ns) (auto simp: empty_classes_def dest!: unpack3_triple)

lemma merge_node_data_exc_unmapped:
  "\<forall>(n, d) \<in> set ns. d ''type'' \<noteq> None \<Longrightarrow> merge_node_data_exc H Map.empty ns = (ns, None)"
  by (induction ns) (auto simp: merge_one_def split: option.splits)

lemma relabel_loop_exc_still:
  "\<forall>old \<in> set olds. map_of m old = None \<or> map_of m old = Some old \<Longrightarrow> relabel_loop_exc m g olds = (g, None)"
  by (induction olds) (simp_all add: relabel_one_still)

lemma relabel_nodes_exc_unmapped: "relabel_nodes_exc g (relabel_fn Map.empty) = (g, None)"
proof -
  have id: "relabel_fn Map.empty = id" by (simp add: fun_eq_iff relabel_fn_def)
  have still: "\<forall>old \<in> set olds. map_of (relabel_dict g id) old = None \<or> map_of (relabel_dict g id) old = Some old"
    for olds by (simp add: map_of_relabel_dict)
  obtain order where "topological_sort_rev (relabel_dict g id) = Inr order"
    using topological_sort_rev_ok [of g id] by auto
  then show ?thesis
    by (simp add: id relabel_nodes_exc_def relabel_inplace_exc_def relabel_loop_exc_still [OF still])
qed

lemma unodes_to_undirected_triples:
  "\<forall>n \<in> set (nodes G). triple n \<Longrightarrow> \<forall>n \<in> set (unodes (to_undirected G)). triple n"
  by (simp add: unodes_to_undirected)

text \<open>
  C33. The invariant of C22 does not survive an exception. On any environment whose
  orthology graph has only triples and whose corpus nodes all carry a type, that session
  raises nothing after cell 11, yet it binds \<^verbatim>\<open>mapping = {}\<close> and pickles the corpus
  exactly as loaded, without a single node mapped, whatever the canonical mapping is.
\<close>

theorem session_saves_unmapped_corpus:
  assumes trip: "\<forall>n \<in> set (nodes (orthology_source E files)). triple n"
    and typed: "\<forall>(n, d) \<in> set (g_node (large_corpus E)). d ''type'' \<noteq> None"
  shows "\<exists>k. run_session E session_ex (fresh_kernel files) =
       (k, [None, None, None, Some NameError, None, None, None, None, None, None]) \<and>
     v_orthology k = Some (orthology_source E files) \<and> v_mapping k = Some Map.empty \<and>
     fs k (corpus_path E) = Some (large_corpus E)"
proof -
  let ?O = "orthology_source E files" and ?C = "large_corpus E"
  have m: "mapping_loop_exc empty_classes Map.empty (unodes (to_undirected ?O)) = (Map.empty, None)"
    using mapping_loop_exc_empty unodes_to_undirected_triples [OF trip] by blast
  have md: "map_node_data_exc (to_undirected ?O) Map.empty ?C = (?C, None)"
    using merge_node_data_exc_unmapped [OF typed] by (simp add: map_node_data_exc_def)
  have rl: "relabel_nodes_exc ?C (relabel_fn Map.empty) = (?C, None)"
    by (rule relabel_nodes_exc_unmapped)
  show ?thesis
    using m md rl cache_paths_distinct [of E]
    by (cases "files (orthology_path E)")
      (simp_all add: session_ex_def orthology_source_def cell_url_def cell_acquire_def
        cell_other_urls_def cell_classes_exc_def cell_undirected_def cell_mapping_exc_def cell_corpus_def
        cell_node_data_exc_def cell_relabel_exc_def cell_save_exc_def cell_save_def cell_acquire_exc_def
        deref_def fresh_kernel_def lift_exc_def Let_def)
qed

subsection \<open>The claims on concrete inputs\<close>

theorem build_classes_exc_stops_witness:
  "triple hA \<and> triple mA \<and> triple rA \<and> \<not> triple [''X''] \<and>
   build_classes_exc [[hA, mA], [rA, [''X''], xX]] =
     (\<lparr>index2component = [0 \<mapsto> [hA, mA], 1 \<mapsto> [rA, [''X''], xX]],
       member2index = [hA \<mapsto> 0, mA \<mapsto> 0, rA \<mapsto> 1], index2mgi = [0 \<mapsto> mA]\<rparr>, Some ValueError)"
proof -
  have t: "triple hA" "triple mA" "triple rA" "\<not> triple [''X'']" by (simp_all add: triple_def)
  have "build_classes_exc ([[hA, mA]] @ ([rA] @ [''X''] # [xX]) # []) =
    (let st = components_done 0 empty_classes [[hA, mA]] in
     (members_done (length [[hA, mA]])
        (st\<lparr>index2component := (index2component st)(length [[hA, mA]] \<mapsto> [rA] @ [''X''] # [xX])\<rparr>) [rA],
      Some ValueError))"
    by (rule build_classes_exc_stops) (simp_all add: t)
  also have "\<dots> = (\<lparr>index2component = [0 \<mapsto> [hA, mA], 1 \<mapsto> [rA, [''X''], xX]],
       member2index = [hA \<mapsto> 0, mA \<mapsto> 0, rA \<mapsto> 1], index2mgi = [0 \<mapsto> mA]\<rparr>, Some ValueError)"
    by (simp add: Let_def components_done_def members_done_def empty_classes_def last_such_def
        is_mgi_def fun_eq_iff)
  finally show ?thesis using t by simp
qed

theorem merge_node_data_exc_eq_witness:
  "merge_node_data_exc ortho_a [hA \<mapsto> mA, rA \<mapsto> mA]
     [(hA, [''type'' \<mapsto> ''Gene'']), (rA, Map.empty), (xX, [''type'' \<mapsto> ''Protein''])] =
   ([(hA, [''type'' \<mapsto> ''Gene'', ''name'' \<mapsto> ''A'']), (rA, Map.empty), (xX, [''type'' \<mapsto> ''Protein''])],
    Some KeyError)"
  using merge_node_data_exc_eq [of ortho_a "[hA \<mapsto> mA, rA \<mapsto> mA]"
      "[(hA, [''type'' \<mapsto> ''Gene'']), (rA, Map.empty), (xX, [''type'' \<mapsto> ''Protein''])]"]
  by (simp add: ortho_a_def merge_ok_def merged_attrs_def allowed_types_def unodes_def)

theorem cache_survives_exceptions_witness:
  "\<exists>k. reachable_exc env_ex (fresh_kernel Map.empty) k \<and> v_orthology k = Some ortho_ex \<and>
     fs k (orthology_path env_ex) = Some ortho_ex \<and> v_g k \<noteq> None \<and> v_g_relabeled k \<noteq> None"
proof -
  obtain k rs where r: "run_session env_ex session_ex (fresh_kernel Map.empty) = (k, rs)" by fastforce
  have reach: "reachable_exc env_ex (fresh_kernel Map.empty) k"
    using r by (rule reachable_exc_session) (rule reachable_exc.start)
  have o: "v_orthology k = Some ortho_ex" and "v_g k \<noteq> None \<and> v_g_relabeled k \<noteq> None"
    using run_session_ex_refs r by simp_all
  with cache_survives_exceptions [OF reach] reach o show ?thesis by (auto simp: cache_ok_def)
qed

theorem session_saves_unmapped_corpus_witness:
  "triple hA \<and> triple mA \<and> large_corpus env_ex = collide \<and> orthology_source env_ex Map.empty = ortho_ex \<and>
   orthology_mapping ortho_ex = Inr [hA \<mapsto> mA, mA \<mapsto> mA] \<and>
   (\<exists>k. run_session env_ex session_ex (fresh_kernel Map.empty) =
       (k, [None, None, None, Some NameError, None, None, None, None, None, None]) \<and>
     v_orthology k = Some ortho_ex \<and> v_mapping k = Some Map.empty \<and> fs k (corpus_path env_ex) = Some collide)"
proof -
  have o: "orthology_source env_ex Map.empty = ortho_ex" by (simp add: orthology_source_def env_ex_def)
  have c: "large_corpus env_ex = collide" by (simp add: env_ex_def)
  have t: "triple hA" "triple mA" by (simp_all add: triple_def)
  have trip: "\<forall>n \<in> set (nodes (orthology_source env_ex Map.empty)). triple n"
    by (simp add: o ortho_ex_def nodes_def triple_def)
  have typed: "\<forall>(n, d) \<in> set (g_node (large_corpus env_ex)). d ''type'' \<noteq> None"
    by (simp add: c collide_def)
  from session_saves_unmapped_corpus [OF trip typed] o c t orthology_mapping_ortho_ex show ?thesis by simp
qed

end
