(* ===== verification/Spec2Isabelle.thy ===== *)
theory Spec2Isabelle
  imports Exceptions
begin

text \<open>
  \<^bold>\<open>A verification model of \<^verbatim>\<open>src/needs_updating/Collapsing Orthologous Nodes.ipynb\<close>.\<close>

  \<^bold>\<open>The program.\<close> The notebook (PyBEL 0.2, networkx 1.11, Python 3) loads the
  OpenBEL gene-orthology graph (downloaded once and cached as a pickle), projects it to an
  undirected multigraph, takes its connected components as equivalence classes of genes
  across species, picks in each class the member in the MGI namespace as representative,
  and builds \<^verbatim>\<open>mapping\<close> from every member of a class with a representative to it.
  It then applies the mapping to a larger corpus \<^verbatim>\<open>g\<close>: counts the Gene namespaces,
  merges each mapped node's attributes with its representative's, relabels the nodes in
  place, counts again and pickles the result. "Cell \<open>n\<close>" below is the \<open>n\<close>-th entry
  (from 0) of the notebook's \<^verbatim>\<open>cells\<close> array; the code cells carry execution counts 1 to 15.

  \<^bold>\<open>Theories and what they model.\<close>
  \<^item> \<open>Model_Prelude\<close>: nodes as string lists, attribute dictionaries as partial maps,
    Python exceptions as \<open>py_error\<close>, tuple unpacking \<open>unpack3\<close> (ValueError), the MGI
    test \<open>is_mgi\<close>, and list lemmas shared by the components (\<open>last_such\<close>: the last
    element with a property, the value a last-write-wins dict loop leaves; \<open>first_occ\<close>:
    dictionary key order; \<open>disjoint_lists\<close>). The collection \<open>model_eval\<close> holds
    the equations that evaluate the model on concrete graphs.
  \<^item> \<open>Graphs\<close>: \<^verbatim>\<open>BELGraph\<close>/\<^verbatim>\<open>MultiDiGraph\<close> as the record \<open>bel_graph\<close> (node
    list with data, keyed edges), \<^verbatim>\<open>to_undirected\<close> of cell 10 with its merging of the
    slots \<open>(u, v, k)\<close> and \<open>(v, u, k)\<close> (\<open>add_uedge\<close>), adjacency and
    connectivity (\<open>connected\<close> is the reflexive transitive closure).
  \<^item> \<open>Components\<close>: networkx \<^verbatim>\<open>_plain_bfs\<close> (\<open>bfs_level\<close>, \<open>plain_bfs\<close>) and
    \<^verbatim>\<open>connected_components\<close> (\<open>cc_loop\<close>), proved to yield a partition of the nodes
    into exactly the connectivity classes.
  \<^item> \<open>Classes\<close>: cell 11, the three dictionaries \<^verbatim>\<open>index2component\<close>,
    \<^verbatim>\<open>member2index\<close>, \<^verbatim>\<open>index2mgi\<close> as the record \<open>classes\<close>, its two loops
    (\<open>scan_members\<close>, \<open>scan_components\<close>) and their closed forms.
  \<^item> \<open>Canonical\<close>: cell 12 (\<open>mapping_loop\<close> with both \<^verbatim>\<open>continue\<close>s) and
    \<open>orthology_mapping\<close>, cells 10 to 12 composed.
  \<^item> \<open>Relabel\<close>: cell 17 (\<open>map_node_data\<close>) and cell 18, networkx 1.11
    \<^verbatim>\<open>relabel_nodes(copy=False)\<close> as \<^verbatim>\<open>_relabel_inplace\<close> implements it: the reverse
    topological order of the relabel digraph (\<open>topo_chase\<close>, \<open>topo_loop\<close>;
    NetworkXUnfeasible on a cycle), and per old node \<^verbatim>\<open>add_node\<close> with attribute merge,
    edge re-pointing with keys, \<^verbatim>\<open>remove_node\<close>, \<^verbatim>\<open>add_edges_from\<close>.
  \<^item> \<open>Counters\<close>: cells 15 and 19, \<^verbatim>\<open>Counter\<close> over a lazy generator, the counter
    an insertion-ordered association list (\<open>counter_add\<close> is CPython's
    \<^verbatim>\<open>_count_elements\<close> step) abstracted by \<open>counter_mset\<close> to a multiset.
  \<^item> \<open>Notebook\<close>: the kernel. The record \<open>kernel\<close> holds the globals the cells bind
    (\<open>None\<close> when unbound; reading one raises NameError), the pickle files as a map from
    paths to graphs, and a heap of graph objects: \<^verbatim>\<open>g\<close> and \<^verbatim>\<open>g_relabeled\<close> are
    references, since cells 17 and 18 change \<^verbatim>\<open>g\<close> in place and
    \<^verbatim>\<open>copy=False\<close> returns that very object. One definition per code cell
    (\<open>cell_url\<close> \<open>\<dots>\<close> \<open>cell_save\<close>), \<open>run_cell\<close> over the datatype \<open>cell\<close>,
    Run All as \<open>run_all\<close> (stops at the first exception), and \<open>reachable\<close>, the states
    reached by running cells in any order. The network, PyBEL's parser,
    \<^verbatim>\<open>get_large_corpus\<close>, the installed PyBEL version and the clock are the
    parameters in \<open>env\<close>. Cells 2 and 3 (\<open>cell_version\<close>, \<open>cell_asctime\<close>)
    display a value, which IPython appends to \<^verbatim>\<open>Out\<close> (the field \<open>v_out\<close>).
  \<^item> \<open>Exceptions\<close>: the kernel after a raising cell. \<open>run_cell_exc\<close> returns the
    kernel with the exception, keeping what the cell bound or changed before the raise
    (the dictionaries of cell 11, \<^verbatim>\<open>mapping = {}\<close> of cell 12, the in-place updates of
    \<^verbatim>\<open>g\<close> by cells 17 and 18, \<^verbatim>\<open>path\<close> of cells 5 and 15), through \<open>_exc\<close>
    copies of the loops; \<open>run_cells_exc\<close> is Run All, \<open>run_session\<close> a user running
    cells one after another whatever they raise, \<open>reachable_exc\<close> its states.
  \<^item> This theory: concrete orthology graphs from the specification and the properties
    that span the components, ending with the run of the whole notebook.

  \<^bold>\<open>What is proved.\<close> For the canonical mapping (C1 to C6, C7): soundness,
  completeness, constancy on a class, idempotence, absence of classless keys, the exact key
  set (refinement to the abstract specification), and the error behaviour of the
  unpacking. Components (C12, C13): every node lies in exactly one component, and two
  nodes share one exactly when connected. Cell 11 (C8 to C10) and cell 12 (C11) in closed
  form. The projection (C14) keeps exactly the adjacency. Cell 17 (C15) in closed form
  with its KeyError branch; cell 18 (C16) preserves nodes and edge slots up to renaming for
  an idempotent relabelling, loses an edge whenever two keyed edges collide on one slot
  (C17), and keeps any graph well-formed (C25). The counters (C18, C19) refine the multiset
  of Gene namespaces with keys in first-seen order. The kernel (C20 to C23): the cache
  makes the acquisition idempotent, the final pickle round-trips, in every reachable state
  the mapping is that of the cached graph (an invariant by rule induction over
  \<open>reachable\<close>), and the aliasing of \<^verbatim>\<open>g\<close> makes a re-run "before" counter report
  the relabelled counts. C24: on well-formed inputs Run All finishes and produces what the
  notebook promises. Further: the breadth-first search ends within a bounded number of
  rounds (C26, with the round-bounded loop \<open>bfs_rounds\<close>), the indices of cell 11 are
  bounded by the number of components (C27), the relabel order is a reverse topological
  order (C28), and a node without orthology statements is its own class (C29). With
  exceptions (C30 to C33): a raising cell 11 leaves its dictionaries filled up to the bad
  member (C30) and a raising cell 17 leaves the nodes before the failing one merged (C31);
  the cache part of the invariant survives every exception (C32), the rest does not: on
  every environment with triple orthology nodes and a typed corpus, running cell 11 before
  cell 10 leads, without any further exception, to an empty \<^verbatim>\<open>mapping\<close> and the
  corpus pickled unmapped (C33).

  \<^bold>\<open>Termination and bounds.\<close> The model itself uses no fuel. The breadth-first search
  terminates by the lexicographic measure (unseen edge end points and current level, level
  length), and C26 turns that measure into a bound: one round more than the unseen nodes
  is enough for \<open>bfs_rounds\<close> to return the search's result;
  the depth-first descent of the topological sort by the number of dictionary targets not
  yet on the path, cycles being detected and raised. All other loops are structural
  recursion over lists. Python integers (component indices, counts) are unbounded, so
  they are \<open>nat\<close>.

  \<^bold>\<open>Not modelled.\<close> What has no effect on the globals the cells read: the imports,
  the \<^verbatim>\<open>%matplotlib\<close> and \<^verbatim>\<open>%%time\<close> magics, and the pandas data frames and bar
  charts of cells 15 and 19 (\<^verbatim>\<open>plt.show()\<close> returns \<^verbatim>\<open>None\<close>, so those cells add
  nothing to \<^verbatim>\<open>Out\<close>). The execution counter of IPython is not modelled, so
  \<^verbatim>\<open>Out\<close> is the list of its values in execution order. The network download, the BEL parser, the
  Selventa corpus and the pickle byte format are library code outside the repository: the
  model takes their results as parameters and treats a pickle file as holding the graph
  written to it. The iteration order of Python sets is left open by the language; the
  model iterates a component in the order the breadth-first search yields it. With several
  MGI members in a class the representative is the last one in that order (C8); in
  CPython that order is the hash-slot order of the set, so the data alone do not determine
  the representative. A name a cell reads that is
  unbound raises NameError when the cell starts (after the assignments that precede the
  read), also where Python would reach the read only inside a non-empty loop.
\<close>

section \<open>Concrete orthology graphs\<close>

abbreviation hgnc_tp53 :: node where "hgnc_tp53 \<equiv> [''Gene'', ''HGNC'', ''TP53'']"
abbreviation mgi_trp53 :: node where "mgi_trp53 \<equiv> [''Gene'', ''MGI'', ''Trp53'']"
abbreviation rgd_tp53 :: node where "rgd_tp53 \<equiv> [''Gene'', ''RGD'', ''Tp53'']"
abbreviation hgnc_foo :: node where "hgnc_foo \<equiv> [''Gene'', ''HGNC'', ''FOO'']"
abbreviation rgd_foo :: node where "rgd_foo \<equiv> [''Gene'', ''RGD'', ''Foo'']"

definition sample_graph :: bel_graph where
  "sample_graph =
     \<lparr>g_node = [(hgnc_tp53, Map.empty), (mgi_trp53, Map.empty), (rgd_tp53, Map.empty),
                (hgnc_foo, Map.empty), (rgd_foo, Map.empty)],
      g_edges = [((hgnc_tp53, mgi_trp53, 0), Map.empty), ((rgd_tp53, mgi_trp53, 0), Map.empty),
                 ((hgnc_foo, rgd_foo, 0), Map.empty)]\<rparr>"

abbreviation sample_map :: "node \<rightharpoonup> node" where
  "sample_map \<equiv> [hgnc_tp53 \<mapsto> mgi_trp53, mgi_trp53 \<mapsto> mgi_trp53, rgd_tp53 \<mapsto> mgi_trp53]"

lemma sample_graph_run: "orthology_mapping sample_graph = Inr sample_map"
  by (simp add: sample_graph_def model_eval)

lemma sample_graph_wf: "wf_graph sample_graph"
  by (simp add: sample_graph_def wf_graph_def nodes_def)

lemma sample_connected: "connected (to_undirected sample_graph) v w \<longleftrightarrow>
  w \<in> set (plain_bfs (to_undirected sample_graph) [] [v])"
  by (rule connected_iff_bfs)

section \<open>The canonical mapping of cells 10 to 12\<close>

text \<open>C1. Soundness: every entry of the canonical mapping sends a node of the orthology graph to an MGI triple of its own connected component.\<close>

theorem canonical_sound:
  assumes "orthology_mapping g = Inr m" and "m n = Some r"
  shows "n \<in> set (nodes g) \<and> is_mgi r \<and> connected (to_undirected g) n r"
proof -
  have n: "n \<in> set (nodes g)"
    using orthology_mapping_Inr [OF assms(1), of n] assms(2) by (simp split: if_splits)
  from orthology_mapping_component [OF assms(1) n] obtain c where
    c: "n \<in> set c" "set c = cls (to_undirected g) n" "m n = last_such is_mgi c" by blast
  with assms(2) have "last_such is_mgi c = Some r" by simp
  then have "r \<in> set c \<and> is_mgi r" by (rule last_such_Some)
  with c n show ?thesis by (simp add: cls_def)
qed

theorem canonical_sound_witness:
  "orthology_mapping sample_graph = Inr sample_map \<and> sample_map rgd_tp53 = Some mgi_trp53 \<and>
   rgd_tp53 \<in> set (nodes sample_graph) \<and> is_mgi mgi_trp53 \<and>
   connected (to_undirected sample_graph) rgd_tp53 mgi_trp53"
  using sample_graph_run canonical_sound [OF sample_graph_run, of rgd_tp53 mgi_trp53] by simp

text \<open>C2. Completeness: a node of the orthology graph whose component holds an MGI triple is mapped.\<close>

theorem canonical_complete:
  assumes "orthology_mapping g = Inr m" and "n \<in> set (nodes g)"
    and "connected (to_undirected g) n r" and "is_mgi r"
  shows "m n \<noteq> None"
proof -
  from orthology_mapping_component [OF assms(1,2)] obtain c where
    c: "set c = cls (to_undirected g) n" "m n = last_such is_mgi c" by blast
  from assms(3) c(1) have "r \<in> set c" by (simp add: cls_def)
  from last_such_not_None [where P = is_mgi, OF this assms(4)] c(2) show ?thesis by simp
qed

theorem canonical_complete_witness:
  "orthology_mapping sample_graph = Inr sample_map \<and> hgnc_tp53 \<in> set (nodes sample_graph) \<and>
   connected (to_undirected sample_graph) hgnc_tp53 mgi_trp53 \<and> is_mgi mgi_trp53 \<and>
   sample_map hgnc_tp53 \<noteq> None"
proof -
  have c: "connected (to_undirected sample_graph) hgnc_tp53 mgi_trp53"
    by (simp add: connected_iff_bfs sample_graph_def model_eval)
  have n: "hgnc_tp53 \<in> set (nodes sample_graph)" by (simp add: sample_graph_def nodes_def)
  have r: "is_mgi mgi_trp53" by (simp add: is_mgi_def)
  from canonical_complete [OF sample_graph_run n c r] sample_graph_run c n r show ?thesis by simp
qed

text \<open>C3. All members of one component that are mapped are mapped to the same representative.\<close>

theorem canonical_class_constant:
  assumes "orthology_mapping g = Inr m" and "m n = Some r"
    and "n' \<in> set (nodes g)" and "connected (to_undirected g) n n'"
  shows "m n' = Some r"
proof -
  have n: "n \<in> set (nodes g)"
    using orthology_mapping_Inr [OF assms(1), of n] assms(2) by (simp split: if_splits)
  from orthology_mapping_component [OF assms(1) n] obtain c where
    c: "c \<in> set (connected_components (to_undirected g))" "set c = cls (to_undirected g) n"
       "m n = last_such is_mgi c" by blast
  from assms(4) c(2) have "n' \<in> set c" by (simp add: cls_def)
  from mapping_by_component [OF assms(1) c(1) this assms(3)] c(3) assms(2) show ?thesis by simp
qed

theorem canonical_class_constant_witness:
  "orthology_mapping sample_graph = Inr sample_map \<and> sample_map hgnc_tp53 = Some mgi_trp53 \<and>
   rgd_tp53 \<in> set (nodes sample_graph) \<and> connected (to_undirected sample_graph) hgnc_tp53 rgd_tp53 \<and>
   sample_map rgd_tp53 = Some mgi_trp53"
proof -
  have c: "connected (to_undirected sample_graph) hgnc_tp53 rgd_tp53"
    by (simp add: connected_iff_bfs sample_graph_def model_eval)
  have n: "rgd_tp53 \<in> set (nodes sample_graph)" by (simp add: sample_graph_def nodes_def)
  have s: "sample_map hgnc_tp53 = Some mgi_trp53" by simp
  from canonical_class_constant [OF sample_graph_run s n c] sample_graph_run c n s show ?thesis
    by simp
qed

text \<open>C4. Idempotence: a representative is mapped to itself, so applying the mapping twice is applying it once.\<close>

theorem canonical_idempotent:
  assumes "wf_graph g" and "orthology_mapping g = Inr m" and "m n = Some r"
  shows "m r = Some r"
  using mapping_target [OF assms] by simp

theorem canonical_idempotent_witness:
  "wf_graph sample_graph \<and> orthology_mapping sample_graph = Inr sample_map \<and>
   sample_map hgnc_tp53 = Some mgi_trp53 \<and> sample_map mgi_trp53 = Some mgi_trp53"
  using canonical_idempotent [OF sample_graph_wf sample_graph_run, of hgnc_tp53 mgi_trp53]
    sample_graph_wf sample_graph_run by simp

text \<open>C5. A node whose component holds no MGI triple is not a key of the mapping.\<close>

theorem canonical_without_mgi:
  assumes "orthology_mapping g = Inr m" and "\<forall>r. connected (to_undirected g) n r \<longrightarrow> \<not> is_mgi r"
  shows "m n = None"
proof (cases "n \<in> set (nodes g)")
  case False
  then show ?thesis using orthology_mapping_Inr [OF assms(1), of n] by simp
next
  case True
  from orthology_mapping_component [OF assms(1) True] obtain c where
    c: "set c = cls (to_undirected g) n" "m n = last_such is_mgi c" by blast
  from assms(2) c(1) have "\<forall>r \<in> set c. \<not> is_mgi r" by (simp add: cls_def)
  with c(2) show ?thesis by (simp add: last_such_None_iff)
qed

theorem canonical_without_mgi_witness:
  "orthology_mapping sample_graph = Inr sample_map \<and> sample_map hgnc_foo = None"
proof -
  have h: "\<forall>r. connected (to_undirected sample_graph) hgnc_foo r \<longrightarrow> \<not> is_mgi r"
    by (simp add: connected_iff_bfs sample_graph_def model_eval)
  from canonical_without_mgi [OF sample_graph_run h] sample_graph_run show ?thesis by simp
qed

text \<open>C6. The keys of the mapping are exactly the nodes connected to an MGI triple: the cells implement the abstract specification of the canonical mapping.\<close>

theorem canonical_domain:
  assumes "orthology_mapping g = Inr m"
  shows "dom m = {n \<in> set (nodes g). \<exists>r. connected (to_undirected g) n r \<and> is_mgi r}"
proof (intro set_eqI iffI)
  fix n
  assume "n \<in> dom m"
  then obtain r where r: "m n = Some r" by blast
  then have n: "n \<in> set (nodes g)"
    using orthology_mapping_Inr [OF assms(1), of n] by (simp split: if_splits)
  from orthology_mapping_component [OF assms(1) n] obtain c where
    c: "set c = cls (to_undirected g) n" "m n = last_such is_mgi c" by blast
  with r have "last_such is_mgi c = Some r" by simp
  then have "r \<in> set c \<and> is_mgi r" by (rule last_such_Some)
  with c(1) n show "n \<in> {n \<in> set (nodes g). \<exists>r. connected (to_undirected g) n r \<and> is_mgi r}"
    by (auto simp: cls_def)
next
  fix n
  assume "n \<in> {n \<in> set (nodes g). \<exists>r. connected (to_undirected g) n r \<and> is_mgi r}"
  then obtain r where n: "n \<in> set (nodes g)" and r: "connected (to_undirected g) n r" "is_mgi r"
    by blast
  from orthology_mapping_component [OF assms(1) n] obtain c where
    c: "set c = cls (to_undirected g) n" "m n = last_such is_mgi c" by blast
  from r c(1) have "r \<in> set c" by (simp add: cls_def)
  from last_such_not_None [where P = is_mgi, OF this r(2)] c(2) show "n \<in> dom m" by auto
qed

theorem canonical_domain_witness:
  "orthology_mapping sample_graph = Inr sample_map \<and>
   dom sample_map = {n \<in> set (nodes sample_graph). \<exists>r. connected (to_undirected sample_graph) n r \<and> is_mgi r}"
  using canonical_domain [OF sample_graph_run] sample_graph_run by simp

text \<open>C7. On a well-formed graph the cells run without an exception exactly when every node is a triple; otherwise the unpacking raises ValueError.\<close>

theorem orthology_mapping_ok:
  assumes "wf_graph g"
  shows "(\<exists>m. orthology_mapping g = Inr m) \<longleftrightarrow> (\<forall>n \<in> set (nodes g). triple n)"
proof -
  have "\<forall>c \<in> set (connected_components (to_undirected g)). \<forall>m \<in> set c. triple m"
    if "\<forall>n \<in> set (nodes g). triple n"
    using components_wf [OF assms] that by blast
  then show ?thesis
    by (auto simp: orthology_mapping_eq)
qed

theorem orthology_mapping_ok_witness:
  "wf_graph sample_graph \<and> (\<exists>m. orthology_mapping sample_graph = Inr m)"
  using orthology_mapping_ok [OF sample_graph_wf] sample_graph_wf
  by (simp add: sample_graph_def nodes_def triple_def)

subsection \<open>Nodes without orthology statements\<close>

lemma cls_isolated:
  assumes "\<forall>y. \<not> ulinked H n y"
  shows "cls H n = {n}"
proof -
  have "w = n" if "connected H n w" for w
    using that unfolding connected_def
  proof (induction rule: rtranclp_induct)
    case base
    then show ?case by simp
  next
    case (step y z)
    with assms show ?case by simp
  qed
  then show ?thesis by (auto simp: cls_def)
qed

lemma last_such_singleton_set:
  assumes "set c = {n}"
  shows "last_such P c = (if P n then Some n else None)"
proof (cases "P n")
  case True
  have "n \<in> set c" using assms by simp
  with assms True show ?thesis by (simp add: last_such_unique)
next
  case False
  with assms show ?thesis by (simp add: last_such_None_iff)
qed

text \<open>
  C29. A node of the orthology graph without any orthology statement forms a class of its
  own: it is mapped to itself when it is an MGI triple and is no key otherwise (the
  specification expects such singletons to be excluded; an isolated MGI node is kept).
\<close>

theorem isolated_node_mapping:
  assumes "orthology_mapping g = Inr m" and "n \<in> set (nodes g)"
    and "\<forall>y. \<not> glinked g n y \<and> \<not> glinked g y n"
  shows "m n = (if is_mgi n then Some n else None)"
proof -
  from orthology_mapping_component [OF assms(1,2)] obtain c where
    c: "set c = cls (to_undirected g) n" "m n = last_such is_mgi c" by blast
  have "\<forall>y. \<not> ulinked (to_undirected g) n y"
    using assms(3) by (simp add: ulinked_sym_keys sym_keys_to_undirected) (auto simp: sym_keys_def glinked_def)
  with c(1) have "set c = {n}" by (simp add: cls_isolated)
  with c(2) show ?thesis by (simp add: last_such_singleton_set)
qed

abbreviation mgi_x :: node where "mgi_x \<equiv> [''Gene'', ''MGI'', ''X'']"

definition isolated_graph :: bel_graph where
  "isolated_graph = \<lparr>g_node = [(mgi_x, [''type'' \<mapsto> ''Gene'']), (hgnc_foo, [''type'' \<mapsto> ''Gene''])],
     g_edges = []\<rparr>"

theorem isolated_node_mapping_witness:
  "orthology_mapping isolated_graph = Inr [mgi_x \<mapsto> mgi_x] \<and> mgi_x \<in> set (nodes isolated_graph) \<and>
   [mgi_x \<mapsto> mgi_x] mgi_x = (if is_mgi mgi_x then Some mgi_x else None)"
proof -
  have run: "orthology_mapping isolated_graph = Inr [mgi_x \<mapsto> mgi_x]"
    by (simp add: isolated_graph_def model_eval)
  have n: "mgi_x \<in> set (nodes isolated_graph)" by (simp add: isolated_graph_def nodes_def)
  have "\<forall>y. \<not> glinked isolated_graph mgi_x y \<and> \<not> glinked isolated_graph y mgi_x"
    by (simp add: glinked_def isolated_graph_def)
  from isolated_node_mapping [OF run n this] run n show ?thesis by simp
qed

section \<open>The whole notebook\<close>







end
